theory Spec2Isabelle
  imports Complex_Main "HOL-Library.Sublist"
begin

section \<open>JavaScript strings and arrays\<close>

text \<open>
  A JavaScript string is modelled as a \<open>string\<close>: each \<open>char\<close> stands for one UTF-16
  code unit in the range U+0000 to U+00FF, so \<open>length\<close> is the source's \<open>.length\<close>.
  JavaScript numbers that count things (\<open>maxChunkSize\<close>, \<open>overlap\<close>, \<open>topK\<close>) are
  \<open>int\<close>; scores are \<open>real\<close>.
\<close>

text \<open>The characters matched by \<open>\s\<close> and removed by \<open>trim()\<close>, below U+0100.\<close>

definition isSpace :: "char \<Rightarrow> bool" where
  "isSpace c \<longleftrightarrow> c \<in> set [CHR 0x09, CHR 0x0A, CHR 0x0B, CHR 0x0C, CHR 0x0D, CHR 0x20, CHR 0xA0]"

text \<open>The character class \<open>[.!?]\<close> of the sentence splitter.\<close>

definition isTerminal :: "char \<Rightarrow> bool" where
  "isTerminal c \<longleftrightarrow> c \<in> set ''.!?''"

text \<open>\<open>s.trim()\<close>\<close>

definition trim :: "string \<Rightarrow> string" where
  "trim s = rev (dropWhile isSpace (rev (dropWhile isSpace s)))"

text \<open>
  \<open>text.split(/(?<=[.!?])\s+/)\<close>: the scan keeps whether the previous character is
  sentence-terminal punctuation and the piece read so far; a whitespace character after
  punctuation ends the piece and the whole whitespace run is consumed. The piece after
  the last separator is always emitted, also when it is empty.
\<close>

function splitSentences_from :: "bool \<Rightarrow> string \<Rightarrow> string \<Rightarrow> string list" where
  "splitSentences_from p acc [] = [acc]"
| "splitSentences_from p acc (c # cs) =
     (if p \<and> isSpace c then acc # splitSentences_from False [] (dropWhile isSpace cs)
      else splitSentences_from (isTerminal c) (acc @ [c]) cs)"
  by pat_completeness auto
termination
  by (relation "measure (\<lambda>(p, acc, cs). length cs)")
     (auto simp: length_dropWhile_le less_Suc_eq_le)

definition splitSentences :: "string \<Rightarrow> string list" where
  "splitSentences s = splitSentences_from False [] s"

text \<open>\<open>s.split(' ')\<close>: every occurrence of the separator character ends a piece.\<close>

fun splitOn :: "char \<Rightarrow> string \<Rightarrow> string list" where
  "splitOn d [] = [ [] ]"
| "splitOn d (c # cs) =
     (if c = d then [] # splitOn d cs
      else (case splitOn d cs of [] \<Rightarrow> [ [c] ] | w # ws \<Rightarrow> (c # w) # ws))"

text \<open>\<open>xs.join(sep)\<close>\<close>

fun join :: "string \<Rightarrow> string list \<Rightarrow> string" where
  "join sep [] = []"
| "join sep [x] = x"
| "join sep (x # y # ys) = x @ sep @ join sep (y # ys)"

text \<open>
  \<open>xs.slice(start)\<close>: a negative start counts from the end, and the start is clamped
  to the array.
\<close>

definition sliceFrom :: "int \<Rightarrow> 'a list \<Rightarrow> 'a list" where
  "sliceFrom start xs =
     (let len = int (length xs);
          k = (if start < 0 then max (len + start) 0 else min start len)
      in drop (nat k) xs)"

text \<open>
  \<open>xs.slice(0, end)\<close>: a negative end counts from the end of the array.
\<close>

definition sliceTo :: "int \<Rightarrow> 'a list \<Rightarrow> 'a list" where
  "sliceTo end xs =
     (let len = int (length xs);
          k = (if end < 0 then max (len + end) 0 else min end len)
      in take (nat k) xs)"

section \<open>ragService.js: chunkText\<close>

text \<open>
  One iteration of the loop over the sentences; the state is the array \<open>chunks\<close> and
  the buffer \<open>currentChunk\<close>.
\<close>

definition chunkStep :: "int \<Rightarrow> int \<Rightarrow> string list \<times> string \<Rightarrow> string \<Rightarrow> string list \<times> string" where
  "chunkStep maxChunkSize overlap st sentence =
     (case st of (chunks, currentChunk) \<Rightarrow>
        if int (length (currentChunk @ sentence)) > maxChunkSize \<and> length currentChunk > 0
        then (chunks @ [trim currentChunk],
              (let words = splitOn (CHR '' '') currentChunk
               in join '' '' (sliceFrom (- (overlap div 10)) words) @ '' '' @ sentence))
        else (chunks, currentChunk @ (if currentChunk \<noteq> [] then '' '' else []) @ sentence))"

definition chunkLoop :: "int \<Rightarrow> int \<Rightarrow> string list \<times> string \<Rightarrow> string list \<Rightarrow> string list \<times> string" where
  "chunkLoop maxChunkSize overlap st sentences = foldl (chunkStep maxChunkSize overlap) st sentences"

definition chunkFinish :: "string list \<times> string \<Rightarrow> string list" where
  "chunkFinish st =
     (case st of (chunks, currentChunk) \<Rightarrow>
        if trim currentChunk \<noteq> [] then chunks @ [trim currentChunk] else chunks)"

definition chunkText :: "string \<Rightarrow> int \<Rightarrow> int \<Rightarrow> string list" where
  "chunkText text maxChunkSize overlap =
     chunkFinish (chunkLoop maxChunkSize overlap ([], []) (splitSentences text))"

text \<open>
  The words that a flush carries over from the buffer:
  \<open>words.slice(-Math.floor(overlap / 10)).join(' ')\<close> for the words of \<open>currentChunk\<close>.
\<close>

definition overlapWords :: "int \<Rightarrow> string \<Rightarrow> string" where
  "overlapWords overlap currentChunk =
     join '' '' (sliceFrom (- (overlap div 10)) (splitOn (CHR '' '') currentChunk))"

text \<open>
  The chunk that holds a sentence longer than the chunk size: the sentence alone, or the
  sentence behind the words carried over from the buffer whose flush made the chunk
  before it; trimmed, as every chunk is.
\<close>

definition ownChunk :: "int \<Rightarrow> string \<Rightarrow> string list \<Rightarrow> string \<Rightarrow> bool" where
  "ownChunk overlap sentence before chunk \<longleftrightarrow>
     chunk = trim sentence
     \<or> (\<exists>flushed. before \<noteq> [] \<and> last before = trim flushed
           \<and> chunk = trim (overlapWords overlap flushed @ '' '' @ sentence))"

text \<open>
  The state of the loop after a long sentence: its chunk is among the chunks, or the
  buffer is that chunk before trimming, and is longer than the chunk size.
\<close>

definition placed :: "int \<Rightarrow> string \<Rightarrow> string list \<Rightarrow> bool" where
  "placed ov s chunks \<longleftrightarrow> (\<exists>before c after. chunks = before @ [c] @ after \<and> ownChunk ov s before c)"

text \<open>
  A condition on inputs used to state when the chunker returns the input unchanged:
  every whitespace run that follows sentence-terminal punctuation, the runs the splitter
  consumes, is exactly one space character.
\<close>

fun singleSpaced_from :: "bool \<Rightarrow> string \<Rightarrow> bool" where
  "singleSpaced_from p [] = True"
| "singleSpaced_from p (c # cs) =
     (if p \<and> isSpace c
      then c = CHR '' '' \<and> (case cs of [] \<Rightarrow> True | d # _ \<Rightarrow> \<not> isSpace d)
           \<and> singleSpaced_from False cs
      else singleSpaced_from (isTerminal c) cs)"

definition singleSpaced :: "string \<Rightarrow> bool" where
  "singleSpaced s = singleSpaced_from False s"

section \<open>Errors\<close>

text \<open>
  A thrown JavaScript exception is a value: \<open>TypeError\<close> for a property read on
  \<open>undefined\<close>, \<open>Error msg\<close> for \<open>new Error(msg)\<close> and for whatever a
  collaborator rejects with.
\<close>

datatype error = TypeError | Error string

section \<open>agentService.js: calculateSimilarity and findBestMatch\<close>

text \<open>\<open>toLowerCase()\<close> on code units below U+0100.\<close>

definition toLowerChar :: "char \<Rightarrow> char" where
  "toLowerChar c =
     (let n = (of_char c :: nat)
      in if (65 \<le> n \<and> n \<le> 90) \<or> (192 \<le> n \<and> n \<le> 222 \<and> n \<noteq> 215)
         then char_of (n + 32) else c)"

definition toLowerCase :: "string \<Rightarrow> string" where
  "toLowerCase s = map toLowerChar s"

text \<open>The character class \<open>\w\<close>: \<open>[A-Za-z0-9_]\<close>.\<close>

definition isWordChar :: "char \<Rightarrow> bool" where
  "isWordChar c =
     (let n = (of_char c :: nat)
      in (65 \<le> n \<and> n \<le> 90) \<or> (97 \<le> n \<and> n \<le> 122) \<or> (48 \<le> n \<and> n \<le> 57) \<or> n = 95)"

text \<open>
  \<open>s.split(/\s+/)\<close>: every maximal whitespace run separates two pieces; the pieces
  before a leading run and after a trailing run are empty strings.
\<close>

function splitWs_from :: "string \<Rightarrow> string \<Rightarrow> string list" where
  "splitWs_from acc [] = [acc]"
| "splitWs_from acc (c # cs) =
     (if isSpace c then acc # splitWs_from [] (dropWhile isSpace cs)
      else splitWs_from (acc @ [c]) cs)"
  by pat_completeness auto
termination
  by (relation "measure (\<lambda>(acc, cs). length cs)")
     (auto simp: length_dropWhile_le less_Suc_eq_le)

definition splitWs :: "string \<Rightarrow> string list" where
  "splitWs s = splitWs_from [] s"

text \<open>
  \<open>[...new Set(xs)]\<close>: the elements in the order of their first occurrence.
\<close>

definition uniq :: "'a list \<Rightarrow> 'a list" where
  "uniq xs = rev (remdups (rev xs))"

text \<open>
  The local function \<open>normalize\<close> (here \<open>normalizeText\<close>):
  \<open>str.toLowerCase().replace(/[^\w\s]/g, '').split(/\s+/).filter(word => word.length > 2)\<close>
\<close>

definition normalizeText :: "string \<Rightarrow> string list" where
  "normalizeText str =
     filter (\<lambda>word. length word > 2)
       (splitWs (filter (\<lambda>c. isWordChar c \<or> isSpace c) (toLowerCase str)))"

definition calculateSimilarity :: "string \<Rightarrow> string \<Rightarrow> real" where
  "calculateSimilarity str1 str2 =
     (let words1 = uniq (normalizeText str1);
          words2 = uniq (normalizeText str2)
      in if length words1 = 0 \<or> length words2 = 0 then 0
         else (let intersection = length (filter (\<lambda>word. word \<in> set words2) words1);
                   union = length words1 + length words2 - intersection
               in real intersection / real union))"

text \<open>
  An entry of \<open>predefinedResponses.questions\<close>. The catalog itself
  (\<open>data/predefinedResponses\<close>) is a parameter of every function that reads it.
\<close>

record qa =
  question :: string
  answer :: string

text \<open>The object \<open>{answer, matchedQuestion, confidence}\<close> held in \<open>bestMatch\<close>.\<close>

record match =
  matchAnswer :: string
  matchedQuestion :: string
  confidence :: real

text \<open>The object \<open>keywords\<close> (here \<open>keywordsTable\<close>), in the order \<open>Object.entries\<close> lists it.\<close>

definition keywordsTable :: "(string \<times> nat) list" where
  "keywordsTable =
     [(''eva'', 0), (''eligibility'', 0), (''verification'', 0),
      (''cam'', 1), (''claims'', 1), (''processing'', 1),
      (''phil'', 2), (''payment'', 2), (''posting'', 2),
      (''agents'', 3), (''thoughtful'', 3),
      (''benefits'', 4), (''advantages'', 4)]"

text \<open>
  The state of both loops is the pair \<open>(bestMatch, highestScore)\<close>. The body of the
  keyword loop reads \<open>question.question\<close> on \<open>questions[questionIndex]\<close>, a
  \<open>TypeError\<close> when the catalog has no such entry.
\<close>

definition keywordStep ::
  "qa list \<Rightarrow> string \<Rightarrow> string \<Rightarrow> match option \<times> real \<Rightarrow> string \<times> nat \<Rightarrow> error + match option \<times> real" where
  "keywordStep questions userQuery lowerQuery st entry =
     (case entry of (keyword, questionIndex) \<Rightarrow>
      case st of (bestMatch, highestScore) \<Rightarrow>
        if sublist keyword lowerQuery then
          (if questionIndex < length questions then
             (let q = questions ! questionIndex;
                  similarity = calculateSimilarity userQuery (question q)
              in if similarity > highestScore
                 then (let highestScore' = max similarity 0.5
                       in Inr (Some \<lparr>matchAnswer = answer q, matchedQuestion = question q,
                                     confidence = highestScore'\<rparr>, highestScore'))
                 else Inr st)
           else Inl TypeError)
        else Inr st)"

fun keywordLoop ::
  "qa list \<Rightarrow> string \<Rightarrow> string \<Rightarrow> match option \<times> real \<Rightarrow> (string \<times> nat) list \<Rightarrow> error + match option \<times> real" where
  "keywordLoop questions userQuery lowerQuery st [] = Inr st"
| "keywordLoop questions userQuery lowerQuery st (entry # entries) =
     (case keywordStep questions userQuery lowerQuery st entry of
        Inl e \<Rightarrow> Inl e
      | Inr st' \<Rightarrow> keywordLoop questions userQuery lowerQuery st' entries)"

definition scanStep :: "string \<Rightarrow> match option \<times> real \<Rightarrow> qa \<Rightarrow> match option \<times> real" where
  "scanStep userQuery st q =
     (case st of (bestMatch, highestScore) \<Rightarrow>
        (let similarity = calculateSimilarity userQuery (question q)
         in if similarity > highestScore
            then (Some \<lparr>matchAnswer = answer q, matchedQuestion = question q,
                         confidence = similarity\<rparr>, similarity)
            else st))"

definition SIMILARITY_THRESHOLD :: real where
  "SIMILARITY_THRESHOLD = 0.3"

definition findBestMatch :: "qa list \<Rightarrow> string \<Rightarrow> error + match option" where
  "findBestMatch questions userQuery =
     (let lowerQuery = toLowerCase userQuery
      in case keywordLoop questions userQuery lowerQuery (None, 0) keywordsTable of
           Inl e \<Rightarrow> Inl e
         | Inr st \<Rightarrow>
             (case foldl (scanStep userQuery) st questions of (bestMatch, highestScore) \<Rightarrow>
                if highestScore \<ge> SIMILARITY_THRESHOLD then Inr bestMatch else Inr None))"

subsection \<open>The matcher in the words of the specification\<close>

text \<open>
  The specification's \<open>similarity\<close>: the Jaccard index of the two normalized token
  sets, 0 when either set is empty.
\<close>

definition spec_similarity :: "string \<Rightarrow> string \<Rightarrow> real" where
  "spec_similarity a b =
     (let A = set (normalizeText a); B = set (normalizeText b)
      in if A = {} \<or> B = {} then 0 else real (card (A \<inter> B)) / real (card (A \<union> B)))"

text \<open>
  The specification keeps one running best; its score is the confidence recorded in it,
  0 while there is none.
\<close>

definition bestScore :: "match option \<Rightarrow> real" where
  "bestScore best = (case best of None \<Rightarrow> 0 | Some m \<Rightarrow> confidence m)"

fun spec_pass1 :: "qa list \<Rightarrow> string \<Rightarrow> match option \<Rightarrow> (string \<times> nat) list \<Rightarrow> match option" where
  "spec_pass1 catalog query best [] = best"
| "spec_pass1 catalog query best ((keyword, i) # table) =
     (if sublist keyword (toLowerCase query)
         \<and> spec_similarity query (question (catalog ! i)) > bestScore best
      then spec_pass1 catalog query
             (Some \<lparr>matchAnswer = answer (catalog ! i), matchedQuestion = question (catalog ! i),
                    confidence = max (spec_similarity query (question (catalog ! i))) 0.5\<rparr>) table
      else spec_pass1 catalog query best table)"

fun spec_pass2 :: "string \<Rightarrow> match option \<Rightarrow> qa list \<Rightarrow> match option" where
  "spec_pass2 query best [] = best"
| "spec_pass2 query best (entry # entries) =
     (if spec_similarity query (question entry) > bestScore best
      then spec_pass2 query
             (Some \<lparr>matchAnswer = answer entry, matchedQuestion = question entry,
                    confidence = spec_similarity query (question entry)\<rparr>) entries
      else spec_pass2 query best entries)"

definition spec_findBestMatch :: "qa list \<Rightarrow> string \<Rightarrow> match option" where
  "spec_findBestMatch catalog query =
     (case spec_pass2 query (spec_pass1 catalog query None keywordsTable) catalog of
        None \<Rightarrow> None
      | Some m \<Rightarrow> if confidence m \<ge> 0.3 then Some m else None)"

text \<open>
  The invariant of both loops of \<open>findBestMatch\<close>: the score is the confidence of
  the best match (0 without one), it lies between 0 and 1, and the best match was built
  from one entry of the catalog.
\<close>

definition fromCatalog :: "qa list \<Rightarrow> match option \<times> real \<Rightarrow> bool" where
  "fromCatalog catalog st =
     (case st of (best, score) \<Rightarrow>
        score = bestScore best \<and> 0 \<le> score \<and> score \<le> 1
        \<and> (case best of None \<Rightarrow> True
            | Some m \<Rightarrow> \<exists>e\<in>set catalog. matchedQuestion m = question e \<and> matchAnswer m = answer e))"

text \<open>
  A catalog of five entries, one for each index of the keyword table, for evaluating
  the matcher on concrete queries.
\<close>

definition exampleCatalog :: "qa list" where
  "exampleCatalog =
     [\<lparr>question = ''What does the eligibility verification agent (EVA) do?'',
       answer = ''EVA automates the process of verifying a patient's eligibility.''\<rparr>,
      \<lparr>question = ''What does the claims processing agent (CAM) do?'',
       answer = ''CAM streamlines the submission and management of claims.''\<rparr>,
      \<lparr>question = ''How does the payment posting agent (PHIL) work?'',
       answer = ''PHIL automates the posting of payments to patient accounts.''\<rparr>,
      \<lparr>question = ''Tell me about Thoughtful AI's Agents.'',
       answer = ''Thoughtful AI provides a suite of AI-powered automation agents.''\<rparr>,
      \<lparr>question = ''What are the benefits of using Thoughtful AI's agents?'',
       answer = ''Using the agents can reduce costs and improve efficiency.''\<rparr>]"

section \<open>ragService.js: cosineSimilarity\<close>

text \<open>
  JavaScript numbers are modelled as real numbers: rounding, overflow and \<open>NaN\<close> are
  outside the model. The loop adds up the three sums from left to right.
\<close>

definition cosineStep :: "real \<times> real \<times> real \<Rightarrow> real \<times> real \<Rightarrow> real \<times> real \<times> real" where
  "cosineStep acc ab =
     (case acc of (dotProduct, normA, normB) \<Rightarrow>
      case ab of (a, b) \<Rightarrow> (dotProduct + a * b, normA + a * a, normB + b * b))"

definition cosineSimilarity :: "real list \<Rightarrow> real list \<Rightarrow> error + real" where
  "cosineSimilarity vecA vecB =
     (if length vecA \<noteq> length vecB then Inl (Error ''Vectors must have the same length'')
      else (case foldl cosineStep (0, 0, 0) (zip vecA vecB) of (dotProduct, normA, normB) \<Rightarrow>
              if normA = 0 \<or> normB = 0 then Inr 0
              else Inr (dotProduct / (sqrt normA * sqrt normB))))"



section \<open>ragService.js: the vector store and searchDocuments\<close>

text \<open>
  A stored document \<open>{id, text, metadata: {pageName, url, scrapedAt}}\<close>, and the same
  with the \<open>score\<close> that \<open>searchDocuments\<close> adds.
\<close>

record document =
  docId :: string
  docText :: string
  pageName :: string
  url :: string
  scrapedAt :: string

record scoredDocument = document +
  score :: real

record vectorStore =
  documents :: "document list"
  embeddings :: "real list list"
  initialized :: bool
  lastUpdated :: "string option"

text \<open>
  The hosted engines are collaborators. A call takes the state of the outside world and
  returns its outcome with the new state; the requests made are recorded in \<open>calls\<close>, as
  a mocked client records them. \<open>embeddingsCreate\<close> answers with the list \<open>data\<close> of
  embeddings, \<open>chatCreate\<close> with the contents of the list \<open>choices\<close>.
\<close>

record message =
  role :: string
  content :: string

datatype call = EmbeddingsCreate string | ChatCompletionsCreate "message list"

record 'w io =
  world :: 'w
  calls :: "call list"

record 'w openai =
  embeddingsCreate :: "string \<Rightarrow> 'w \<Rightarrow> (error + real list list) \<times> 'w"
  chatCreate :: "message list \<Rightarrow> 'w \<Rightarrow> (error + string list) \<times> 'w"

text \<open>
  \<open>generateEmbedding\<close>: the input is cut to 8000 characters; \<open>response.data[0]\<close> is
  read without a check.
\<close>

definition generateEmbedding :: "'w openai \<Rightarrow> string \<Rightarrow> 'w io \<Rightarrow> (error + real list) \<times> 'w io" where
  "generateEmbedding client txt s =
     (let input = take 8000 txt;
          (response, w') = embeddingsCreate client input (world s);
          s' = \<lparr>world = w', calls = calls s @ [EmbeddingsCreate input]\<rparr>
      in case response of
           Inl e \<Rightarrow> (Inl e, s')
         | Inr data \<Rightarrow> (case data of [] \<Rightarrow> (Inl TypeError, s') | embedding # _ \<Rightarrow> (Inr embedding, s')))"

text \<open>
  \<open>vectorStore.documents.map((doc, index) => ...)\<close>: the document at each index is
  scored against \<open>vectorStore.embeddings[index]\<close>; a missing embedding is
  \<open>undefined\<close>, whose \<open>length\<close> cannot be read.
\<close>

fun scoreDocuments :: "real list \<Rightarrow> document list \<Rightarrow> real list list \<Rightarrow> error + scoredDocument list" where
  "scoreDocuments queryEmbedding [] es = Inr []"
| "scoreDocuments queryEmbedding (doc # docs) [] = Inl TypeError"
| "scoreDocuments queryEmbedding (doc # docs) (e # es) =
     (case cosineSimilarity queryEmbedding e of
        Inl err \<Rightarrow> Inl err
      | Inr sc \<Rightarrow>
          (case scoreDocuments queryEmbedding docs es of
             Inl err \<Rightarrow> Inl err
           | Inr rest \<Rightarrow> Inr (document.extend doc \<lparr>score = sc\<rparr> # rest)))"

text \<open>
  \<open>scored.sort((a, b) => b.score - a.score)\<close>: a stable sort by descending score.
\<close>

definition sortByScore :: "scoredDocument list \<Rightarrow> scoredDocument list" where
  "sortByScore scored = sort_key (\<lambda>d. - score d) scored"

definition searchDocuments ::
  "vectorStore \<Rightarrow> 'w openai \<Rightarrow> string \<Rightarrow> int \<Rightarrow> 'w io \<Rightarrow> (error + scoredDocument list) \<times> 'w io" where
  "searchDocuments store client query topK s =
     (if \<not> initialized store \<or> length (documents store) = 0 then (Inr [], s)
      else (case generateEmbedding client query s of
              (Inl e, s') \<Rightarrow> (Inl e, s')
            | (Inr queryEmbedding, s') \<Rightarrow>
                (case scoreDocuments queryEmbedding (documents store) (embeddings store) of
                   Inl e \<Rightarrow> (Inl e, s')
                 | Inr scored \<Rightarrow>
                     (Inr (filter (\<lambda>doc. score doc > 0.3) (sliceTo topK (sortByScore scored))), s'))))"

text \<open>\<open>buildContext\<close> and \<open>getRelevantContext\<close>\<close>

definition buildContext :: "scoredDocument list \<Rightarrow> string" where
  "buildContext searchResults =
     (if length searchResults = 0 then []
      else join [CHR 0x0A, CHR 0x0A, CHR ''-'', CHR ''-'', CHR ''-'', CHR 0x0A, CHR 0x0A]
             (map (\<lambda>doc. ''[Source: '' @ pageName doc @ '']'' @ [CHR 0x0A] @ docText doc) searchResults))"

record sourceRef =
  srcPageName :: string
  srcUrl :: string
  relevanceScore :: real

record ragContext =
  contextString :: string
  sources :: "sourceRef list"
  hasContext :: bool

definition getRelevantContext :: "vectorStore \<Rightarrow> 'w openai \<Rightarrow> string \<Rightarrow> 'w io \<Rightarrow> (error + ragContext) \<times> 'w io" where
  "getRelevantContext store client query s =
     (case searchDocuments store client query 5 s of
        (Inl e, s') \<Rightarrow> (Inl e, s')
      | (Inr searchResults, s') \<Rightarrow>
          (Inr \<lparr>contextString = buildContext searchResults,
                sources = map (\<lambda>r. \<lparr>srcPageName = pageName r, srcUrl = url r, relevanceScore = score r\<rparr>) searchResults,
                hasContext = (length searchResults > 0)\<rparr>, s'))"

definition isInitialized :: "vectorStore \<Rightarrow> bool" where
  "isInitialized store = initialized store"

section \<open>agentService.js: the three tiers of getAgentResponse\<close>

text \<open>The static part of the system prompt.\<close>

definition staticSystemPrompt :: string where
  "staticSystemPrompt = join [CHR 0x0A]
     [''You are a helpful customer support agent for Thoughtful AI, a company that provides AI-powered automation agents for healthcare revenue cycle management (RCM).'',
      '''',
      ''Thoughtful AI is now proudly part of Smarter Technologies.'',
      '''',
      ''Our main solutions include:'',
      ''- Prior Authorization: AI-powered automation of the end-to-end prior authorization process'',
      ''- Medical Coding: Fine-tuned generative AI for fast and accurate medical coding'',
      ''- Accounts Receivable: AI that checks status claims, auto-corrects denials, and generates appeal letters'',
      ''- Payment Posting: Automated reconciliation of payments and posting of remittances'',
      '''',
      ''Key benefits:'',
      ''- 95%+ Accuracy Improvement'',
      ''- Seamless Full RCM Coverage'',
      ''- Unlimited Scalability Without Additional Cost'',
      ''- Continuous Adaption to Regulatory Change'',
      ''- Predictable and Fast Cash Flow'',
      '''',
      ''Be friendly, professional, and helpful. Provide accurate information based on the context provided. If the context doesn't contain relevant information, be honest about it while still trying to help.'']"

text \<open>The object \<open>{answer, sources}\<close> that \<open>getOpenAIResponseWithRAG\<close> returns.\<close>

record ragResponse =
  ragAnswer :: string
  ragResponseSources :: "sourceRef list"

text \<open>
  \<open>getOpenAIResponseWithRAG\<close>. Creating the client and the request
  \<open>openai.chat.completions.create\<close> are one call of the collaborator, which may fail;
  \<open>completion.choices[0]\<close> is read without a check.
\<close>

definition getOpenAIResponseWithRAG ::
  "'w openai \<Rightarrow> string \<Rightarrow> message list \<Rightarrow> ragContext option \<Rightarrow> 'w io \<Rightarrow> (error + ragResponse) \<times> 'w io" where
  "getOpenAIResponseWithRAG client userQuery conversationHistory ragContext s =
     (let systemPrompt = staticSystemPrompt @
            (case ragContext of
               None \<Rightarrow> []
             | Some ctx \<Rightarrow>
                 if hasContext ctx
                 then [CHR 0x0A, CHR 0x0A] @ ''--- RELEVANT INFORMATION FROM THOUGHTFUL.AI ---'' @ [CHR 0x0A]
                      @ contextString ctx @ [CHR 0x0A] @ ''--- END OF RELEVANT INFORMATION ---''
                      @ [CHR 0x0A, CHR 0x0A]
                      @ ''Use the above information to provide accurate and detailed responses. Cite specific details when relevant.''
                 else []);
          messages = [\<lparr>role = ''system'', content = systemPrompt\<rparr>]
                     @ map (\<lambda>msg. \<lparr>role = role msg, content = content msg\<rparr>) conversationHistory
                     @ [\<lparr>role = ''user'', content = userQuery\<rparr>];
          (completion, w') = chatCreate client messages (world s);
          s' = \<lparr>world = w', calls = calls s @ [ChatCompletionsCreate messages]\<rparr>
      in case completion of
           Inl e \<Rightarrow> (Inl e, s')
         | Inr choices \<Rightarrow>
             (case choices of
                [] \<Rightarrow> (Inl TypeError, s')
              | c # _ \<Rightarrow>
                  (Inr \<lparr>ragAnswer = c,
                        ragResponseSources = (case ragContext of None \<Rightarrow> [] | Some ctx \<Rightarrow> sources ctx)\<rparr>, s')))"

definition getOpenAIResponse :: "'w openai \<Rightarrow> string \<Rightarrow> message list \<Rightarrow> 'w io \<Rightarrow> (error + string) \<times> 'w io" where
  "getOpenAIResponse client userQuery conversationHistory s =
     (case getOpenAIResponseWithRAG client userQuery conversationHistory None s of
        (Inl e, s') \<Rightarrow> (Inl e, s')
      | (Inr result, s') \<Rightarrow> (Inr (ragAnswer result), s'))"

text \<open>
  The response object; \<open>source\<close> is one of the strings \<open>'predefined'\<close>, \<open>'rag'\<close>
  and \<open>'openai'\<close> (the specification's fallback), and \<open>ragSources\<close> is present only
  in the response of the second tier.
\<close>

datatype source = Predefined | Rag | Openai

record agentResponse =
  respAnswer :: string
  respSource :: source
  respConfidence :: "real option"
  respMatchedQuestion :: "string option"
  ragSources :: "sourceRef list option"

text \<open>The body of the \<open>try\<close> block: retrieval, then completion with the context.\<close>

definition ragTier ::
  "vectorStore \<Rightarrow> 'w openai \<Rightarrow> string \<Rightarrow> message list \<Rightarrow> 'w io \<Rightarrow> (error + agentResponse) \<times> 'w io" where
  "ragTier store client userQuery conversationHistory s =
     (case getRelevantContext store client userQuery s of
        (Inl e, s1) \<Rightarrow> (Inl e, s1)
      | (Inr ragContext, s1) \<Rightarrow>
          (case getOpenAIResponseWithRAG client userQuery conversationHistory (Some ragContext) s1 of
             (Inl e, s2) \<Rightarrow> (Inl e, s2)
           | (Inr ragResponse, s2) \<Rightarrow>
               (Inr \<lparr>respAnswer = ragAnswer ragResponse,
                     respSource = (if hasContext ragContext then Rag else Openai),
                     respConfidence =
                       (if hasContext ragContext
                        then Some (foldr max (map relevanceScore (sources ragContext)) 0)
                        else None),
                     respMatchedQuestion = None,
                     ragSources = Some (ragResponseSources ragResponse)\<rparr>, s2)))"

text \<open>The statements after the \<open>try\<close> block: the plain completion.\<close>

definition openaiTier ::
  "'w openai \<Rightarrow> string \<Rightarrow> message list \<Rightarrow> 'w io \<Rightarrow> (error + agentResponse) \<times> 'w io" where
  "openaiTier client userQuery conversationHistory s =
     (case getOpenAIResponse client userQuery conversationHistory s of
        (Inl e, s') \<Rightarrow> (Inl e, s')
      | (Inr aiResponse, s') \<Rightarrow>
          (Inr \<lparr>respAnswer = aiResponse, respSource = Openai, respConfidence = None,
                respMatchedQuestion = None, ragSources = None\<rparr>, s'))"

text \<open>
  What \<open>getAgentResponse\<close> does when the predefined answer is not taken: the second
  tier when the store is initialized, with every error of the \<open>try\<close> block caught,
  then the third tier.
\<close>

definition afterPredefined ::
  "vectorStore \<Rightarrow> 'w openai \<Rightarrow> string \<Rightarrow> message list \<Rightarrow> 'w io \<Rightarrow> (error + agentResponse) \<times> 'w io" where
  "afterPredefined store client userQuery conversationHistory s =
     (if isInitialized store
      then (case ragTier store client userQuery conversationHistory s of
              (Inr response, s') \<Rightarrow> (Inr response, s')
            | (Inl e, s') \<Rightarrow> openaiTier client userQuery conversationHistory s')
      else openaiTier client userQuery conversationHistory s)"

definition getAgentResponse ::
  "qa list \<Rightarrow> vectorStore \<Rightarrow> 'w openai \<Rightarrow> string \<Rightarrow> message list \<Rightarrow> 'w io \<Rightarrow> (error + agentResponse) \<times> 'w io" where
  "getAgentResponse questions store client userQuery conversationHistory s =
     (case findBestMatch questions userQuery of
        Inl e \<Rightarrow> (Inl e, s)
      | Inr None \<Rightarrow> afterPredefined store client userQuery conversationHistory s
      | Inr (Some predefinedMatch) \<Rightarrow>
          if confidence predefinedMatch > 0.6
          then (Inr \<lparr>respAnswer = matchAnswer predefinedMatch, respSource = Predefined,
                     respConfidence = Some (confidence predefinedMatch),
                     respMatchedQuestion = Some (matchedQuestion predefinedMatch),
                     ragSources = None\<rparr>, s)
          else afterPredefined store client userQuery conversationHistory s)"

subsection \<open>A scripted client\<close>

text \<open>
  A client for evaluating the functions on concrete runs, in the manner of the mocked
  client of the repository's tests: the world holds the outcomes that the next requests
  will get, and a request takes the first one.
\<close>

record scriptWorld =
  embedScript :: "(error + real list list) list"
  chatScript :: "(error + string list) list"

definition scriptedEmbeddings :: "string \<Rightarrow> scriptWorld \<Rightarrow> (error + real list list) \<times> scriptWorld" where
  "scriptedEmbeddings input w =
     (case embedScript w of
        [] \<Rightarrow> (Inl (Error ''no scripted outcome''), w)
      | r # rs \<Rightarrow> (r, w\<lparr>embedScript := rs\<rparr>))"

definition scriptedChat :: "message list \<Rightarrow> scriptWorld \<Rightarrow> (error + string list) \<times> scriptWorld" where
  "scriptedChat messages w =
     (case chatScript w of
        [] \<Rightarrow> (Inl (Error ''no scripted outcome''), w)
      | r # rs \<Rightarrow> (r, w\<lparr>chatScript := rs\<rparr>))"

definition scriptedClient :: "scriptWorld openai" where
  "scriptedClient = \<lparr>embeddingsCreate = scriptedEmbeddings, chatCreate = scriptedChat\<rparr>"

definition exampleStore :: vectorStore where
  "exampleStore =
     \<lparr>documents =
        [\<lparr>docId = ''Home-0'', docText = ''Prior Authorization automates healthcare approval workflows.'',
          pageName = ''Home'', url = ''https://www.thoughtful.ai/'', scrapedAt = ''2024-01-01T00:00:00.000Z''\<rparr>,
         \<lparr>docId = ''About-1'', docText = ''Thoughtful AI is part of Smarter Technologies.'',
          pageName = ''About'', url = ''https://www.thoughtful.ai/about'', scrapedAt = ''2024-01-01T00:00:00.000Z''\<rparr>],
      embeddings = [ [1, 0], [1, 0] ],
      initialized = True,
      lastUpdated = Some ''2024-01-01T00:00:00.000Z''\<rparr>"

section \<open>scraperService.js: the callbacks of extractTextFromHtml\<close>

text \<open>
  The markup is read by the library \<open>htmlparser2\<close>, which calls \<open>onopentag\<close>,
  \<open>ontext\<close> and \<open>onclosetag\<close> in document order. The sequence of these calls is the
  input of the model; the callbacks and what follows \<open>parser.end()\<close> are the source's.
\<close>

datatype event = OpenTag string | Text string | CloseTag string

record parserState =
  textParts :: "string list"
  currentTag :: string
  skipContent :: bool
  currentText :: string

definition tagsToSkip :: "string list" where
  "tagsToSkip = [''script'', ''style'', ''nav'', ''footer'', ''header'', ''noscript'']"

definition contentTags :: "string list" where
  "contentTags = [''h1'', ''h2'', ''h3'', ''h4'', ''p'', ''li'', ''span'', ''div'', ''a'']"

definition onopentag :: "string \<Rightarrow> parserState \<Rightarrow> parserState" where
  "onopentag name st =
     (let tag = toLowerCase name
      in st\<lparr>currentTag := tag,
            skipContent := (if tag \<in> set tagsToSkip then True else skipContent st),
            currentText := []\<rparr>)"

definition ontext :: "string \<Rightarrow> parserState \<Rightarrow> parserState" where
  "ontext txt st =
     (if \<not> skipContent st \<and> currentTag st \<in> set contentTags
      then (let trimmed = trim txt
            in if trimmed \<noteq> [] then st\<lparr>currentText := currentText st @ trimmed @ '' ''\<rparr> else st)
      else st)"

definition onclosetag :: "string \<Rightarrow> parserState \<Rightarrow> parserState" where
  "onclosetag tagname st =
     (let tag = toLowerCase tagname;
          st1 = (if tag \<in> set tagsToSkip then st\<lparr>skipContent := False\<rparr> else st);
          trimmedText = trim (currentText st1);
          minLength = (if tag \<in> set [''h1'', ''h2'', ''h3'', ''h4''] then 3 else 10);
          st2 = (if trimmedText \<noteq> [] \<and> length trimmedText \<ge> minLength
                 then st1\<lparr>textParts := textParts st1 @ [trimmedText]\<rparr> else st1)
      in st2\<lparr>currentText := [], currentTag := []\<rparr>)"

fun handleEvent :: "parserState \<Rightarrow> event \<Rightarrow> parserState" where
  "handleEvent st (OpenTag name) = onopentag name st"
| "handleEvent st (Text txt) = ontext txt st"
| "handleEvent st (CloseTag tagname) = onclosetag tagname st"

definition initialParserState :: parserState where
  "initialParserState = \<lparr>textParts = [], currentTag = [], skipContent = False, currentText = []\<rparr>"

definition extractTextFromEvents :: "event list \<Rightarrow> string" where
  "extractTextFromEvents events =
     join [CHR 0x0A, CHR 0x0A] (uniq (textParts (foldl handleEvent initialParserState events)))"

definition extractTextFromHtml :: "(string \<Rightarrow> event list) \<Rightarrow> string \<Rightarrow> string" where
  "extractTextFromHtml parser html = extractTextFromEvents (parser html)"

section \<open>knowledgeService.js: the single-flight initialization\<close>




text \<open>
  A scraped page \<open>{pageName, url, scrapedAt, content, fullText}\<close>, the statistics
  \<open>{totalPages, totalChunks, lastUpdated}\<close> that \<open>ingestContent\<close> returns, and the two
  objects that \<open>initializeKnowledgeBase\<close> resolves to: the report of a finished
  initialization and the note that the knowledge base was initialized already.
\<close>

record scrapedPage =
  scrapedPageName :: string
  scrapedUrl :: string
  scrapedTime :: string
  scrapedContent :: "string list"
  fullText :: string















section \<open>Properties of trim\<close>


lemma dropWhile_keeps_mid:
  assumes "t \<noteq> []" "\<not> P (hd t)"
  shows "\<exists>ps'. dropWhile P (ps @ t @ ss) = ps' @ t @ ss \<and> ((\<forall>x\<in>set ps. P x) \<longrightarrow> ps' = [])"
proof (cases "\<forall>x\<in>set ps. P x")
  case True
  from assms obtain h t' where t: "t = h # t'" "\<not> P h" by (cases t) auto
  with True have "dropWhile P (ps @ t @ ss) = [] @ t @ ss" by (simp add: dropWhile_append)
  with True show ?thesis by blast
next
  case False
  then have "dropWhile P (ps @ t @ ss) = dropWhile P ps @ t @ ss" by (auto simp: dropWhile_append)
  with False show ?thesis by blast
qed

lemma trim_keeps_mid:
  assumes t: "t \<noteq> []" "\<not> isSpace (hd t)" "\<not> isSpace (last t)"
  shows "\<exists>ps' ss'. trim (ps @ t @ ss) = ps' @ t @ ss' \<and> ((\<forall>x\<in>set ss. isSpace x) \<longrightarrow> ss' = [])"
proof -
  from dropWhile_keeps_mid[of t isSpace ps ss] t
  obtain ps' where ps': "dropWhile isSpace (ps @ t @ ss) = ps' @ t @ ss" by blast
  have r: "rev t \<noteq> []" "\<not> isSpace (hd (rev t))" using t by (simp_all add: hd_rev)
  from dropWhile_keeps_mid[of "rev t" isSpace "rev ss" "rev ps'"] r
  obtain q where q: "dropWhile isSpace (rev ss @ rev t @ rev ps') = q @ rev t @ rev ps'"
     "(\<forall>x\<in>set (rev ss). isSpace x) \<longrightarrow> q = []" by blast
  have "trim (ps @ t @ ss) = ps' @ t @ rev q"
    using ps' q(1) by (simp add: trim_def)
  moreover have "(\<forall>x\<in>set ss. isSpace x) \<longrightarrow> rev q = []" using q(2) by simp
  ultimately show ?thesis by blast
qed

lemma dropWhile_trim:
  "\<exists>b. dropWhile isSpace s = trim s @ b \<and> (\<forall>x\<in>set b. isSpace x)"
proof -
  let ?r = "dropWhile isSpace s"
  let ?b = "rev (takeWhile isSpace (rev ?r))"
  have "rev ?r = takeWhile isSpace (rev ?r) @ dropWhile isSpace (rev ?r)" by simp
  then have "?r = trim s @ ?b" unfolding trim_def by (metis rev_append rev_rev_ident)
  moreover have "\<forall>x\<in>set ?b. isSpace x" by (auto dest: set_takeWhileD)
  ultimately show ?thesis by blast
qed

lemma trim_decomp:
  "\<exists>a b. s = a @ trim s @ b \<and> (\<forall>x\<in>set a. isSpace x) \<and> (\<forall>x\<in>set b. isSpace x)"
proof -
  from dropWhile_trim[of s] obtain b where b: "dropWhile isSpace s = trim s @ b" "\<forall>x\<in>set b. isSpace x"
    by blast
  have "s = takeWhile isSpace s @ trim s @ b" using b(1) by (metis takeWhile_dropWhile_id)
  moreover have "\<forall>x\<in>set (takeWhile isSpace s). isSpace x" by (auto dest: set_takeWhileD)
  ultimately show ?thesis using b(2) by blast
qed

lemma trim_last:
  assumes "trim s \<noteq> []"
  shows "\<not> isSpace (last (trim s))"
  using assms by (simp add: trim_def last_rev hd_dropWhile)

lemma trim_hd:
  assumes "trim s \<noteq> []"
  shows "\<not> isSpace (hd (trim s))"
proof -
  from dropWhile_trim[of s] obtain b where b: "dropWhile isSpace s = trim s @ b" by blast
  then have "dropWhile isSpace s \<noteq> []" using assms by simp
  then have "\<not> isSpace (hd (dropWhile isSpace s))" by (simp add: hd_dropWhile)
  then show ?thesis using b assms by simp
qed

lemma trim_empty_iff: "trim s = [] \<longleftrightarrow> (\<forall>x\<in>set s. isSpace x)"
proof
  assume "trim s = []"
  with trim_decomp[of s] show "\<forall>x\<in>set s. isSpace x" by (metis append_Nil set_append Un_iff)
next
  assume "\<forall>x\<in>set s. isSpace x"
  then show "trim s = []" by (auto simp: trim_def dest: set_dropWhileD)
qed

lemma sublist_trim:
  assumes "sublist t c" "t \<noteq> []" "\<not> isSpace (hd t)" "\<not> isSpace (last t)"
  shows "sublist t (trim c)"
proof -
  from assms(1) obtain ps ss where "c = ps @ t @ ss" by (auto simp: sublist_def)
  with trim_keeps_mid[OF assms(2-4), of ps ss] show ?thesis by (auto simp: sublist_def)
qed

lemma suffix_trim_append:
  assumes "trim s \<noteq> []"
  shows "suffix (trim s) (trim (pre @ s))"
proof -
  from trim_decomp[of s] obtain a b where ab: "s = a @ trim s @ b" "\<forall>x\<in>set b. isSpace x" by blast
  from trim_keeps_mid[OF assms trim_hd[OF assms] trim_last[OF assms], of "pre @ a" b] ab(2)
  obtain ps' where "trim ((pre @ a) @ trim s @ b) = ps' @ trim s" by auto
  moreover have "(pre @ a) @ trim s @ b = pre @ s" using ab(1) by simp
  ultimately show ?thesis by (simp add: suffix_def)
qed

lemma chunkStep_buffer:
  "\<exists>pre. snd (chunkStep m ov st s) = pre @ s"
  by (cases st) (auto simp: chunkStep_def Let_def)

lemma chunkStep_buffer_keep:
  assumes "\<not> (int (length (snd st @ s)) > m \<and> length (snd st) > 0)"
  shows "fst (chunkStep m ov st s) = fst st" "\<exists>post. snd (chunkStep m ov st s) = snd st @ post"
  using assms by (cases st; auto simp: chunkStep_def)+

lemma chunkStep_flush:
  assumes "int (length (snd st @ s)) > m" "snd st \<noteq> []"
  shows "fst (chunkStep m ov st s) = fst st @ [trim (snd st)]"
  using assms by (cases st) (auto simp: chunkStep_def)

lemma chunkStep_chunks_mono: "set (fst st) \<subseteq> set (fst (chunkStep m ov st s))"
  by (cases st) (auto simp: chunkStep_def)

text \<open>Coverage invariant: a trimmed, non-blank string held by the state stays held.\<close>

lemma chunkStep_covered:
  assumes t: "t \<noteq> []" "\<not> isSpace (hd t)" "\<not> isSpace (last t)"
    and c: "(\<exists>c\<in>set (fst st). sublist t c) \<or> sublist t (trim (snd st))"
  shows "(\<exists>c\<in>set (fst (chunkStep m ov st s)). sublist t c) \<or> sublist t (trim (snd (chunkStep m ov st s)))"
proof (cases "int (length (snd st @ s)) > m \<and> length (snd st) > 0")
  case True
  then have "fst (chunkStep m ov st s) = fst st @ [trim (snd st)]"
    by (simp add: chunkStep_flush)
  with c show ?thesis by auto
next
  case False
  from chunkStep_buffer_keep[OF False] obtain post where
    k: "fst (chunkStep m ov st s) = fst st" "snd (chunkStep m ov st s) = snd st @ post" by blast
  from c show ?thesis
  proof
    assume "\<exists>c\<in>set (fst st). sublist t c"
    with k show ?thesis by simp
  next
    assume "sublist t (trim (snd st))"
    moreover have "sublist (trim (snd st)) (snd st)"
      using trim_decomp[of "snd st"] by (metis sublist_appendI)
    ultimately have "sublist t (snd st @ post)"
      by (meson sublist_order.order.trans sublist_append_rightI)
    then have "sublist t (trim (snd st @ post))" using t by (rule sublist_trim)
    with k show ?thesis by simp
  qed
qed

lemma chunkStep_new:
  assumes "trim s \<noteq> []"
  shows "sublist (trim s) (trim (snd (chunkStep m ov st s)))"
proof -
  from chunkStep_buffer[of m ov st s] obtain pre where "snd (chunkStep m ov st s) = pre @ s" by blast
  then show ?thesis using suffix_trim_append[OF assms, of pre] by auto
qed

lemma chunkLoop_covered:
  assumes t: "t \<noteq> []" "\<not> isSpace (hd t)" "\<not> isSpace (last t)"
    and c: "(\<exists>c\<in>set (fst st). sublist t c) \<or> sublist t (trim (snd st))"
  shows "(\<exists>c\<in>set (fst (chunkLoop m ov st xs)). sublist t c) \<or> sublist t (trim (snd (chunkLoop m ov st xs)))"
  using c
proof (induction xs arbitrary: st)
  case Nil
  then show ?case by (simp add: chunkLoop_def)
next
  case (Cons x xs)
  from Cons.IH[OF chunkStep_covered[OF t Cons.prems, of m ov x] ]
  show ?case by (simp add: chunkLoop_def)
qed

lemma chunkLoop_new:
  assumes "s \<in> set xs" "trim s \<noteq> []"
  shows "(\<exists>c\<in>set (fst (chunkLoop m ov st xs)). sublist (trim s) c) \<or> sublist (trim s) (trim (snd (chunkLoop m ov st xs)))"
  using assms(1)
proof (induction xs arbitrary: st)
  case Nil
  then show ?case by simp
next
  case (Cons x xs)
  have step: "chunkLoop m ov st (x # xs) = chunkLoop m ov (chunkStep m ov st x) xs"
    by (simp add: chunkLoop_def)
  show ?case
  proof (cases "s = x")
    case True
    have "sublist (trim s) (trim (snd (chunkStep m ov st x)))"
      using chunkStep_new[OF assms(2)] True by simp
    then show ?thesis
      unfolding step
      using chunkLoop_covered[OF assms(2) trim_hd[OF assms(2)] trim_last[OF assms(2)] ] by blast
  next
    case False
    with Cons.prems have "s \<in> set xs" by simp
    from Cons.IH[OF this] show ?thesis unfolding step .
  qed
qed

lemma chunkFinish_covered:
  assumes "t \<noteq> []" "(\<exists>c\<in>set (fst st). sublist t c) \<or> sublist t (trim (snd st))"
  shows "\<exists>c\<in>set (chunkFinish st). sublist t c"
  using assms by (cases st) (auto simp: chunkFinish_def)

lemma isSpace_not_terminal: "isSpace c \<Longrightarrow> \<not> isTerminal c"
  by (auto simp: isSpace_def isTerminal_def)

lemma splitSentences_from_blank:
  "\<forall>x\<in>set cs. isSpace x \<Longrightarrow> splitSentences_from False acc cs = [acc @ cs]"
  by (induction cs arbitrary: acc) (auto simp: isSpace_not_terminal)

lemma chunkText_blank:
  assumes "trim text = []"
  shows "chunkText text m ov = []"
proof -
  have "splitSentences text = [text]"
    using assms by (simp add: splitSentences_def splitSentences_from_blank trim_empty_iff)
  then show ?thesis using assms
    by (simp add: chunkText_def chunkLoop_def chunkStep_def chunkFinish_def)
qed

section \<open>The chunk of a long sentence\<close>

lemma chunkStep_flush_buffer:
  assumes "int (length (snd st @ s)) > m" "snd st \<noteq> []"
  shows "snd (chunkStep m ov st s) = overlapWords ov (snd st) @ '' '' @ s"
  using assms by (cases st) (auto simp: chunkStep_def overlapWords_def Let_def)

lemma chunkStep_first_buffer:
  assumes "snd st = []"
  shows "fst (chunkStep m ov st s) = fst st" "snd (chunkStep m ov st s) = s"
  using assms by (cases st; simp add: chunkStep_def)+

lemma ownChunk_suffix:
  assumes "trim s \<noteq> []" "ownChunk ov s before c"
  shows "suffix (trim s) c"
  using assms(2) unfolding ownChunk_def
proof
  assume "c = trim s"
  then show ?thesis by simp
next
  assume "\<exists>flushed. before \<noteq> [] \<and> last before = trim flushed
            \<and> c = trim (overlapWords ov flushed @ '' '' @ s)"
  then obtain flushed where c: "c = trim ((overlapWords ov flushed @ '' '') @ s)" by auto
  show ?thesis unfolding c by (rule suffix_trim_append[OF assms(1)])
qed

lemma placed_append: "placed ov s chunks \<Longrightarrow> placed ov s (chunks @ rest)"
  unfolding placed_def by (metis append.assoc)

lemma placed_last: "ownChunk ov s chunks c \<Longrightarrow> placed ov s (chunks @ [c])"
  unfolding placed_def by (metis append_Nil2)

lemma chunkStep_chunks_grow: "\<exists>rest. fst (chunkStep m ov st s) = fst st @ rest"
  by (cases st) (auto simp: chunkStep_def)

lemma chunkStep_placed:
  assumes "placed ov t (fst st)
           \<or> (ownChunk ov t (fst st) (trim (snd st)) \<and> int (length (snd st)) > m \<and> trim (snd st) \<noteq> [])"
  shows "placed ov t (fst (chunkStep m ov st s))"
  using assms
proof
  assume "placed ov t (fst st)"
  then show ?thesis using chunkStep_chunks_grow[of m ov st s] placed_append by metis
next
  assume a: "ownChunk ov t (fst st) (trim (snd st)) \<and> int (length (snd st)) > m \<and> trim (snd st) \<noteq> []"
  then have "snd st \<noteq> []" by (auto simp: trim_def)
  moreover have "int (length (snd st @ s)) > m" using a by simp
  ultimately have "fst (chunkStep m ov st s) = fst st @ [trim (snd st)]"
    by (rule chunkStep_flush[rotated])
  with a show ?thesis by (simp add: placed_last)
qed

lemma chunkStep_new_placed:
  assumes "trim s \<noteq> []" "int (length s) > m"
  shows "ownChunk ov s (fst (chunkStep m ov st s)) (trim (snd (chunkStep m ov st s)))
         \<and> int (length (snd (chunkStep m ov st s))) > m \<and> trim (snd (chunkStep m ov st s)) \<noteq> []"
proof (cases "snd st = []")
  case True
  from chunkStep_first_buffer[OF True, of m ov s] assms show ?thesis
    by (simp add: ownChunk_def)
next
  case False
  have long: "int (length (snd st @ s)) > m" using assms(2) by simp
  have c: "fst (chunkStep m ov st s) = fst st @ [trim (snd st)]"
    using long False by (rule chunkStep_flush)
  have b: "snd (chunkStep m ov st s) = overlapWords ov (snd st) @ '' '' @ s"
    using long False by (rule chunkStep_flush_buffer)
  have "ownChunk ov s (fst st @ [trim (snd st)]) (trim (overlapWords ov (snd st) @ '' '' @ s))"
    unfolding ownChunk_def by (intro disjI2 exI[of _ "snd st"]) simp
  moreover have "int (length (overlapWords ov (snd st) @ '' '' @ s)) > m" using assms(2) by simp
  moreover have "trim (overlapWords ov (snd st) @ '' '' @ s) \<noteq> []"
    using suffix_trim_append[OF assms(1), of "overlapWords ov (snd st) @ '' ''"] assms(1)
    by (auto simp: suffix_def)
  ultimately show ?thesis by (simp only: c b) simp
qed

lemma chunkLoop_placed:
  assumes "placed ov t (fst st)
           \<or> (ownChunk ov t (fst st) (trim (snd st)) \<and> int (length (snd st)) > m \<and> trim (snd st) \<noteq> [])"
  shows "placed ov t (fst (chunkLoop m ov st xs))
         \<or> (ownChunk ov t (fst (chunkLoop m ov st xs)) (trim (snd (chunkLoop m ov st xs)))
             \<and> int (length (snd (chunkLoop m ov st xs))) > m \<and> trim (snd (chunkLoop m ov st xs)) \<noteq> [])"
  using assms
proof (induction xs arbitrary: st)
  case Nil
  then show ?case by (simp add: chunkLoop_def)
next
  case (Cons x xs)
  have "placed ov t (fst (chunkStep m ov st x))"
    using chunkStep_placed[OF Cons.prems] .
  then show ?case using Cons.IH[of "chunkStep m ov st x"] by (simp add: chunkLoop_def)
qed

lemma chunkLoop_new_placed:
  assumes "s \<in> set xs" "trim s \<noteq> []" "int (length s) > m"
  shows "placed ov s (fst (chunkLoop m ov st xs))
         \<or> (ownChunk ov s (fst (chunkLoop m ov st xs)) (trim (snd (chunkLoop m ov st xs)))
             \<and> int (length (snd (chunkLoop m ov st xs))) > m \<and> trim (snd (chunkLoop m ov st xs)) \<noteq> [])"
  using assms(1)
proof (induction xs arbitrary: st)
  case Nil
  then show ?case by simp
next
  case (Cons x xs)
  have step: "chunkLoop m ov st (x # xs) = chunkLoop m ov (chunkStep m ov st x) xs"
    by (simp add: chunkLoop_def)
  show ?case
  proof (cases "s = x")
    case True
    have "ownChunk ov s (fst (chunkStep m ov st x)) (trim (snd (chunkStep m ov st x)))
         \<and> int (length (snd (chunkStep m ov st x))) > m \<and> trim (snd (chunkStep m ov st x)) \<noteq> []"
      using chunkStep_new_placed[OF assms(2,3)] True by simp
    then show ?thesis
      unfolding step using chunkLoop_placed by blast
  next
    case False
    with Cons.prems have "s \<in> set xs" by simp
    from Cons.IH[OF this] show ?thesis unfolding step .
  qed
qed

lemma chunkFinish_placed:
  assumes "placed ov t (fst st)
           \<or> (ownChunk ov t (fst st) (trim (snd st)) \<and> int (length (snd st)) > m \<and> trim (snd st) \<noteq> [])"
  shows "placed ov t (chunkFinish st)"
  using assms
proof
  assume "placed ov t (fst st)"
  then show ?thesis using placed_append[of ov t "fst st"]
    by (cases st) (auto simp: chunkFinish_def)
next
  assume "ownChunk ov t (fst st) (trim (snd st)) \<and> int (length (snd st)) > m \<and> trim (snd st) \<noteq> []"
  then show ?thesis using placed_last[of ov t "fst st" "trim (snd st)"]
    by (cases st) (auto simp: chunkFinish_def)
qed

lemma chunkText_placed:
  assumes "s \<in> set (splitSentences text)" "trim s \<noteq> []" "int (length s) > m"
  shows "\<exists>before c after. chunkText text m ov = before @ [c] @ after
           \<and> suffix (trim s) c \<and> ownChunk ov s before c"
proof -
  have "placed ov s (chunkText text m ov)"
    unfolding chunkText_def by (rule chunkFinish_placed[OF chunkLoop_new_placed[OF assms] ])
  then obtain before c after where
    "chunkText text m ov = before @ [c] @ after" "ownChunk ov s before c"
    unfolding placed_def by blast
  with ownChunk_suffix[OF assms(2)] show ?thesis by blast
qed

section \<open>C1: chunkText loses no sentence\<close>

text \<open>
  Claim C1, as the code has it. Every chunk is trimmed, so a sentence is found in the
  chunks without its leading and trailing whitespace (only the first sentence can start
  with whitespace and only the last can end with it): every sentence of the split that is
  not blank appears, trimmed, as a contiguous part of some chunk. A non-blank sentence
  longer than \<open>maxChunkSize\<close> is neither truncated nor dropped, and it has a chunk that
  ends with it: that chunk is the trimmed sentence, or the trimmed sentence behind the
  overlap words and a space, the overlap words being those carried over from the buffer
  whose flush made the chunk just before. Empty or whitespace-only input yields no chunk.
\<close>

theorem chunkText_keeps_sentences:
  "(\<forall>s\<in>set (splitSentences text). trim s \<noteq> [] \<longrightarrow>
      (\<exists>c\<in>set (chunkText text maxChunkSize overlap). sublist (trim s) c))
   \<and> (\<forall>s\<in>set (splitSentences text). trim s \<noteq> [] \<and> int (length s) > maxChunkSize \<longrightarrow>
      (\<exists>before c after. chunkText text maxChunkSize overlap = before @ [c] @ after
          \<and> suffix (trim s) c
          \<and> (c = trim s
              \<or> (\<exists>flushed. before \<noteq> [] \<and> last before = trim flushed
                    \<and> c = trim (overlapWords overlap flushed @ '' '' @ s)))))
   \<and> (trim text = [] \<longrightarrow> chunkText text maxChunkSize overlap = [])"
proof (intro conjI ballI impI)
  fix s assume s: "s \<in> set (splitSentences text)" "trim s \<noteq> []"
  show "\<exists>c\<in>set (chunkText text maxChunkSize overlap). sublist (trim s) c"
    unfolding chunkText_def
    using chunkFinish_covered[OF s(2) chunkLoop_new[OF s] ] .
next
  fix s assume s: "s \<in> set (splitSentences text)" "trim s \<noteq> [] \<and> int (length s) > maxChunkSize"
  from chunkText_placed[OF s(1), of maxChunkSize overlap] s(2)
  show "\<exists>before c after. chunkText text maxChunkSize overlap = before @ [c] @ after
          \<and> suffix (trim s) c
          \<and> (c = trim s
              \<or> (\<exists>flushed. before \<noteq> [] \<and> last before = trim flushed
                    \<and> c = trim (overlapWords overlap flushed @ '' '' @ s)))"
    unfolding ownChunk_def by blast
next
  assume "trim text = []"
  then show "chunkText text maxChunkSize overlap = []" by (rule chunkText_blank)
qed

theorem chunkText_keeps_sentences_witness:
  "''Second one is long.'' \<in> set (splitSentences ''First. Second one is long. '')
   \<and> trim ''Second one is long.'' \<noteq> []
   \<and> int (length ''Second one is long.'') > 10
   \<and> chunkText ''First. Second one is long. '' 10 20 =
       [''First.'', ''First. Second one is long.'', ''is long.'']
   \<and> (\<exists>c\<in>set (chunkText ''First. Second one is long. '' 10 20). sublist (trim ''Second one is long.'') c)
   \<and> (\<exists>before c after. chunkText ''First. Second one is long. '' 10 20 = before @ [c] @ after
          \<and> suffix (trim ''Second one is long.'') c
          \<and> (c = trim ''Second one is long.''
              \<or> (\<exists>flushed. before \<noteq> [] \<and> last before = trim flushed
                    \<and> c = trim (overlapWords 20 flushed @ '' '' @ ''Second one is long.''))))
   \<and> trim ''   '' = [] \<and> chunkText ''   '' 10 20 = []"
proof -
  have a: "''Second one is long.'' \<in> set (splitSentences ''First. Second one is long. '')"
    by code_simp
  have b: "trim ''Second one is long.'' \<noteq> []" by code_simp
  have c: "int (length ''Second one is long.'') > 10" by simp
  have d: "trim ''   '' = []" by code_simp
  have e: "chunkText ''First. Second one is long. '' 10 20 =
       [''First.'', ''First. Second one is long.'', ''is long.'']" by code_simp
  from a b c d
    chunkText_keeps_sentences[of "''First. Second one is long. ''" 10 20]
    chunkText_keeps_sentences[of "''   ''" 10 20]
  have "(\<exists>c\<in>set (chunkText ''First. Second one is long. '' 10 20). sublist (trim ''Second one is long.'') c)"
    and "(\<exists>before c after. chunkText ''First. Second one is long. '' 10 20 = before @ [c] @ after
          \<and> suffix (trim ''Second one is long.'') c
          \<and> (c = trim ''Second one is long.''
              \<or> (\<exists>flushed. before \<noteq> [] \<and> last before = trim flushed
                    \<and> c = trim (overlapWords 20 flushed @ '' '' @ ''Second one is long.''))))"
    and "chunkText ''   '' 10 20 = []"
    by blast+
  with a b c d e show ?thesis by blast
qed

text \<open>
  The claim as the spec words it fails on the text \<open>" A b. Cccccccccc."\<close> with
  \<open>maxChunkSize = 5\<close> and \<open>overlap = 50\<close>: the first sentence keeps its leading
  blank, which no trimmed chunk contains, and the long second sentence is stored behind
  the overlap words, not as a chunk of its own.
\<close>

theorem chunkText_verbatim_counterexample:
  "splitSentences '' A b. Cccccccccc.'' = ['' A b.'', ''Cccccccccc.'']
   \<and> chunkText '' A b. Cccccccccc.'' 5 50 = [''A b.'', ''A b. Cccccccccc.'']
   \<and> \<not> sublist '' A b.'' ''A b.''
   \<and> \<not> sublist '' A b.'' ''A b. Cccccccccc.''
   \<and> int (length ''Cccccccccc.'') > 5
   \<and> ''Cccccccccc.'' \<notin> set [''A b.'', ''A b. Cccccccccc.'']"
  by code_simp

section \<open>Short inputs are never flushed\<close>

lemma splitSentences_from_weight:
  "sum_list (map length (splitSentences_from p acc cs)) + length (splitSentences_from p acc cs)
     \<le> length acc + length cs + 1"
proof (induction p acc cs rule: splitSentences_from.induct)
  case (1 p acc)
  show ?case by simp
next
  case (2 p acc c cs)
  show ?case
  proof (cases "p \<and> isSpace c")
    case True
    have "length (dropWhile isSpace cs) \<le> length cs" by (rule length_dropWhile_le)
    with 2(1)[OF True] True show ?thesis by simp
  next
    case False
    then have "splitSentences_from p acc (c # cs) = splitSentences_from (isTerminal c) (acc @ [c]) cs"
      by auto
    with 2(2)[OF False] show ?thesis by simp
  qed
qed

lemma splitSentences_from_first:
  "\<exists>x rest. splitSentences_from p acc cs = x # rest \<and> prefix acc x"
proof (induction p acc cs rule: splitSentences_from.induct)
  case (1 p acc)
  show ?case by simp
next
  case (2 p acc c cs)
  show ?case
  proof (cases "p \<and> isSpace c")
    case True
    then show ?thesis by simp
  next
    case False
    from 2(2)[OF False] obtain x rest where
      "splitSentences_from (isTerminal c) (acc @ [c]) cs = x # rest" "prefix (acc @ [c]) x" by blast
    with False show ?thesis by (auto dest: append_prefixD)
  qed
qed

lemma splitSentences_first_empty:
  assumes "splitSentences text = [] # rest"
  shows "rest = []"
proof (cases "text")
  case Nil
  with assms show ?thesis by (simp add: splitSentences_def)
next
  case (Cons c cs)
  from splitSentences_from_first[of "isTerminal c" "[c]" cs] obtain x r where
    "splitSentences_from (isTerminal c) [c] cs = x # r" "prefix [c] x" by blast
  with assms Cons show ?thesis by (auto simp: splitSentences_def)
qed

lemma splitSentences_from_blank_pieces:
  "\<forall>x\<in>set (splitSentences_from p acc cs). \<forall>c\<in>set x. isSpace c \<Longrightarrow> \<forall>c\<in>set (acc @ cs). isSpace c"
proof (induction p acc cs rule: splitSentences_from.induct)
  case (1 p acc)
  then show ?case by simp
next
  case (2 p acc c cs)
  show ?case
  proof (cases "p \<and> isSpace c")
    case True
    with 2(3) have acc: "\<forall>c\<in>set acc. isSpace c"
      and rest: "\<forall>x\<in>set (splitSentences_from False [] (dropWhile isSpace cs)). \<forall>c\<in>set x. isSpace c"
      by simp_all
    from 2(1)[OF True rest] have "\<forall>c\<in>set (dropWhile isSpace cs). isSpace c" by simp
    then have "dropWhile isSpace cs = []"
      by (metis dropWhile_eq_Nil_conv dropWhile_idem)
    then have "\<forall>c\<in>set cs. isSpace c" by simp
    with acc True show ?thesis by auto
  next
    case False
    with 2(3) have "\<forall>x\<in>set (splitSentences_from (isTerminal c) (acc @ [c]) cs). \<forall>c\<in>set x. isSpace c"
      by simp
    from 2(2)[OF False this] show ?thesis by simp
  qed
qed

lemma set_join: "x \<in> set xs \<Longrightarrow> set x \<subseteq> set (join sep xs)"
  by (induction sep xs rule: join.induct) auto

lemma join_Cons: "ys \<noteq> [] \<Longrightarrow> join sep (x # ys) = x @ sep @ join sep ys"
  by (cases ys) simp_all

lemma join_nonblank:
  assumes "trim text \<noteq> []"
  shows "trim (join sep (splitSentences text)) \<noteq> []"
proof
  assume "trim (join sep (splitSentences text)) = []"
  then have j: "\<forall>c\<in>set (join sep (splitSentences text)). isSpace c" by (simp add: trim_empty_iff)
  have "\<forall>x\<in>set (splitSentences text). \<forall>c\<in>set x. isSpace c"
    using j set_join by blast
  then have "\<forall>c\<in>set text. isSpace c"
    using splitSentences_from_blank_pieces[of False "[]" "text"] by (simp add: splitSentences_def)
  with assms show False by (simp add: trim_empty_iff)
qed

lemma chunkLoop_short:
  "int (length cur) + int (sum_list (map length xs)) + int (length xs) \<le> m \<Longrightarrow>
   chunkLoop m ov (chunks, cur) xs =
     (chunks, foldl (\<lambda>c s. c @ (if c \<noteq> [] then '' '' else []) @ s) cur xs)"
proof (induction xs arbitrary: cur)
  case Nil
  show ?case by (simp add: chunkLoop_def)
next
  case (Cons x xs)
  let ?cur = "cur @ (if cur \<noteq> [] then '' '' else []) @ x"
  have step: "chunkStep m ov (chunks, cur) x = (chunks, ?cur)"
    using Cons.prems by (simp add: chunkStep_def)
  have "int (length ?cur) + int (sum_list (map length xs)) + int (length xs) \<le> m"
    using Cons.prems by simp
  from Cons.IH[OF this] step show ?case by (simp add: chunkLoop_def)
qed

lemma foldl_buffer_join:
  "cur \<noteq> [] \<Longrightarrow>
   foldl (\<lambda>c s. c @ (if c \<noteq> [] then '' '' else []) @ s) cur xs = join '' '' (cur # xs)"
proof (induction xs arbitrary: cur)
  case Nil
  show ?case by simp
next
  case (Cons x xs)
  have "cur @ '' '' @ x \<noteq> []" by simp
  from Cons.IH[OF this] Cons.prems show ?case by (cases xs) simp_all
qed

lemma foldl_buffer_sentences:
  "foldl (\<lambda>c s. c @ (if c \<noteq> [] then '' '' else []) @ s) [] (splitSentences text)
     = join '' '' (splitSentences text)"
proof -
  from splitSentences_from_first[of False "[]" "text"] obtain x rest where
    xs: "splitSentences text = x # rest" by (auto simp: splitSentences_def)
  show ?thesis
  proof (cases "x = []")
    case True
    with xs splitSentences_first_empty[of "text" rest] show ?thesis by simp
  next
    case False
    with xs foldl_buffer_join[OF False, of rest] show ?thesis by simp
  qed
qed

lemma join_splitSentences_from:
  "singleSpaced_from p cs \<Longrightarrow> join '' '' (splitSentences_from p acc cs) = acc @ cs"
proof (induction p acc cs rule: splitSentences_from.induct)
  case (1 p acc)
  show ?case by simp
next
  case (2 p acc c cs)
  show ?case
  proof (cases "p \<and> isSpace c")
    case True
    with 2(3) have c: "c = CHR '' ''" and d: "dropWhile isSpace cs = cs"
      and r: "singleSpaced_from False cs"
      by (auto split: list.splits)
    from splitSentences_from_first[of False "[]" cs]
    have ne: "splitSentences_from False [] cs \<noteq> []" by auto
    from 2(1)[OF True] r d have "join '' '' (splitSentences_from False [] cs) = cs" by simp
    with True c d ne show ?thesis by (simp add: join_Cons)
  next
    case False
    with 2(3) have "singleSpaced_from (isTerminal c) cs" by simp
    from 2(2)[OF False this] False show ?thesis by auto
  qed
qed

section \<open>C6: an input shorter than the chunk size\<close>

text \<open>
  Claim C6, as the code has it. A non-blank input shorter than \<open>maxChunkSize\<close> yields
  exactly one chunk: its sentences joined by single spaces, then trimmed. That chunk is
  the trimmed input whenever every whitespace run after sentence-terminal punctuation is
  one space character.
\<close>

theorem chunkText_short_input:
  assumes "trim text \<noteq> []" and "int (length text) < maxChunkSize"
  shows "chunkText text maxChunkSize overlap = [trim (join '' '' (splitSentences text))]
         \<and> (singleSpaced text \<longrightarrow> chunkText text maxChunkSize overlap = [trim text])"
proof -
  let ?xs = "splitSentences text"
  have "sum_list (map length ?xs) + length ?xs \<le> length text + 1"
    using splitSentences_from_weight[of False "[]" "text"] by (simp add: splitSentences_def)
  then have "int (length ([]::string)) + int (sum_list (map length ?xs)) + int (length ?xs) \<le> maxChunkSize"
    using assms(2) by simp
  then have "chunkLoop maxChunkSize overlap ([], []) ?xs = ([], join '' '' ?xs)"
    by (simp only: chunkLoop_short foldl_buffer_sentences)
  then have one: "chunkText text maxChunkSize overlap = [trim (join '' '' ?xs)]"
    using join_nonblank[OF assms(1), of "'' ''"] by (simp add: chunkText_def chunkFinish_def)
  have "singleSpaced text \<longrightarrow> join '' '' ?xs = text"
    using join_splitSentences_from[of False "text" "[]"]
    by (simp add: singleSpaced_def splitSentences_def)
  with one show ?thesis by simp
qed

theorem chunkText_short_input_witness:
  "trim ''  One. Two! Three  '' \<noteq> [] \<and> int (length ''  One. Two! Three  '') < 100
   \<and> singleSpaced ''  One. Two! Three  ''
   \<and> chunkText ''  One. Two! Three  '' 100 50 = [trim (join '' '' (splitSentences ''  One. Two! Three  ''))]
   \<and> chunkText ''  One. Two! Three  '' 100 50 = [trim ''  One. Two! Three  '']"
proof -
  have a: "trim ''  One. Two! Three  '' \<noteq> []" by code_simp
  have b: "int (length ''  One. Two! Three  '') < 100" by simp
  have c: "singleSpaced ''  One. Two! Three  ''" by code_simp
  from a b c chunkText_short_input[OF a b, of 50] show ?thesis by blast
qed

text \<open>
  The claim as the spec words it fails on \<open>"A.  B"\<close>, two spaces between the
  sentences: the chunk has one.
\<close>

theorem chunkText_short_input_counterexample:
  "trim ''A.  B'' = ''A.  B'' \<and> int (length ''A.  B'') < 500
   \<and> chunkText ''A.  B'' 500 50 = [''A. B''] \<and> ''A. B'' \<noteq> trim ''A.  B''"
  by code_simp

section \<open>The similarity is the Jaccard index\<close>

lemma set_uniq: "set (uniq xs) = set xs"
  by (simp add: uniq_def)

lemma distinct_uniq: "distinct (uniq xs)"
  by (simp add: uniq_def)

lemma length_uniq: "length (uniq xs) = card (set xs)"
  using distinct_card[OF distinct_uniq, of xs] by (simp add: set_uniq)

lemma length_filter_uniq:
  "length (filter (\<lambda>w. w \<in> B) (uniq xs)) = card (set xs \<inter> B)"
proof -
  have "card (set (filter (\<lambda>w. w \<in> B) (uniq xs))) = length (filter (\<lambda>w. w \<in> B) (uniq xs))"
    by (rule distinct_card) (simp add: distinct_uniq)
  moreover have "set (filter (\<lambda>w. w \<in> B) (uniq xs)) = set xs \<inter> B" by (auto simp: set_uniq)
  ultimately show ?thesis by simp
qed

lemma calculateSimilarity_jaccard: "calculateSimilarity a b = spec_similarity a b"
proof -
  let ?A = "set (normalizeText a)" and ?B = "set (normalizeText b)"
  have un: "card ?A + card ?B - card (?A \<inter> ?B) = card (?A \<union> ?B)"
    using card_Un_Int[of ?A ?B] by simp
  have z: "card ?A = 0 \<longleftrightarrow> ?A = {}" "card ?B = 0 \<longleftrightarrow> ?B = {}" by simp_all
  show ?thesis
    unfolding calculateSimilarity_def spec_similarity_def Let_def
      length_uniq set_uniq length_filter_uniq un z
    by simp
qed

lemma spec_similarity_bounds: "0 \<le> spec_similarity a b" "spec_similarity a b \<le> 1"
proof -
  let ?A = "set (normalizeText a)" and ?B = "set (normalizeText b)"
  have "card (?A \<inter> ?B) \<le> card (?A \<union> ?B)" by (rule card_mono) auto
  moreover have "?A \<noteq> {} \<Longrightarrow> 0 < card (?A \<union> ?B)" by (simp add: card_gt_0_iff)
  ultimately show "spec_similarity a b \<le> 1"
    by (auto simp: spec_similarity_def Let_def divide_le_eq_1)
  show "0 \<le> spec_similarity a b" by (simp add: spec_similarity_def Let_def)
qed

lemma calculateSimilarity_bounds: "0 \<le> calculateSimilarity a b" "calculateSimilarity a b \<le> 1"
  by (simp_all add: calculateSimilarity_jaccard spec_similarity_bounds)

section \<open>The loops of findBestMatch\<close>

lemma keywordStep_fromCatalog:
  assumes "fromCatalog catalog st" "keywordStep catalog q lq st entry = Inr st'"
  shows "fromCatalog catalog st'"
proof -
  obtain keyword i where e: "entry = (keyword, i)" by (cases entry)
  obtain best score where st: "st = (best, score)" by (cases st)
  show ?thesis
  proof (cases "sublist keyword lq \<and> calculateSimilarity q (question (catalog ! i)) > score")
    case False
    with assms e st have "st' = st"
      by (auto simp: keywordStep_def Let_def split: if_splits)
    with assms(1) show ?thesis by simp
  next
    case True
    with assms(2) e st have i: "i < length catalog"
      by (auto simp: keywordStep_def Let_def split: if_splits)
    let ?s = "max (calculateSimilarity q (question (catalog ! i))) 0.5"
    from True i assms(2) e st have st': "st' = (Some \<lparr>matchAnswer = answer (catalog ! i),
        matchedQuestion = question (catalog ! i), confidence = ?s\<rparr>, ?s)"
      by (auto simp: keywordStep_def Let_def)
    have "0 \<le> ?s" "?s \<le> 1" using calculateSimilarity_bounds[of q "question (catalog ! i)"] by auto
    moreover have "catalog ! i \<in> set catalog" using i by simp
    ultimately show ?thesis unfolding st' fromCatalog_def bestScore_def by auto
  qed
qed

lemma keywordLoop_fromCatalog:
  "fromCatalog catalog st \<Longrightarrow> keywordLoop catalog q lq st table = Inr st' \<Longrightarrow> fromCatalog catalog st'"
proof (induction table arbitrary: st)
  case Nil
  then show ?case by simp
next
  case (Cons entry table)
  from Cons.prems(2) obtain st1 where s1: "keywordStep catalog q lq st entry = Inr st1"
    and s2: "keywordLoop catalog q lq st1 table = Inr st'"
    by (auto split: sum.splits)
  from Cons.IH[OF keywordStep_fromCatalog[OF Cons.prems(1) s1] s2] show ?case .
qed

lemma scanStep_fromCatalog:
  assumes "fromCatalog catalog st" "e \<in> set catalog"
  shows "fromCatalog catalog (scanStep q st e)"
proof -
  obtain best score where st: "st = (best, score)" by (cases st)
  show ?thesis
    using assms calculateSimilarity_bounds[of q "question e"]
    unfolding st scanStep_def fromCatalog_def bestScore_def Let_def by auto
qed

lemma scan_fromCatalog:
  "fromCatalog catalog st \<Longrightarrow> set es \<subseteq> set catalog \<Longrightarrow> fromCatalog catalog (foldl (scanStep q) st es)"
  by (induction es arbitrary: st) (simp_all add: scanStep_fromCatalog)

lemma findBestMatch_fromCatalog:
  assumes "findBestMatch catalog q = Inr (Some m)"
  shows "fromCatalog catalog (Some m, confidence m) \<and> SIMILARITY_THRESHOLD \<le> confidence m"
proof -
  from assms obtain st where k: "keywordLoop catalog q (toLowerCase q) (None, 0) keywordsTable = Inr st"
    by (auto simp: findBestMatch_def Let_def split: sum.splits)
  have "fromCatalog catalog (None, 0)" by (simp add: fromCatalog_def bestScore_def)
  from keywordLoop_fromCatalog[OF this k] have "fromCatalog catalog st" .
  then have f: "fromCatalog catalog (foldl (scanStep q) st catalog)" by (rule scan_fromCatalog) simp
  obtain best score where r: "foldl (scanStep q) st catalog = (best, score)"
    by (cases "foldl (scanStep q) st catalog")
  from assms k r have "best = Some m" "SIMILARITY_THRESHOLD \<le> score"
    by (auto simp: findBestMatch_def Let_def split: if_splits)
  moreover from f r this(1) have "score = confidence m" by (simp add: fromCatalog_def bestScore_def)
  ultimately show ?thesis using f r by simp
qed

section \<open>The two passes refine the specification's passes\<close>

lemma keywordLoop_spec_pass1:
  "\<forall>(keyword, i)\<in>set table. i < length catalog \<Longrightarrow>
   keywordLoop catalog q (toLowerCase q) (best, bestScore best) table =
     Inr (spec_pass1 catalog q best table, bestScore (spec_pass1 catalog q best table))"
proof (induction table arbitrary: best)
  case Nil
  show ?case by simp
next
  case (Cons entry table)
  obtain keyword i where e: "entry = (keyword, i)" by (cases entry)
  from Cons.prems e have i: "i < length catalog" and rest: "\<forall>(keyword, i)\<in>set table. i < length catalog"
    by auto
  let ?sim = "spec_similarity q (question (catalog ! i))"
  let ?new = "Some \<lparr>matchAnswer = answer (catalog ! i), matchedQuestion = question (catalog ! i),
                     confidence = max ?sim 0.5\<rparr>"
  show ?case
  proof (cases "sublist keyword (toLowerCase q) \<and> ?sim > bestScore best")
    case True
    then have "keywordStep catalog q (toLowerCase q) (best, bestScore best) entry = Inr (?new, bestScore ?new)"
      using i e by (simp add: keywordStep_def Let_def calculateSimilarity_jaccard bestScore_def)
    with True e Cons.IH[OF rest, of ?new] show ?thesis by simp
  next
    case False
    then have "keywordStep catalog q (toLowerCase q) (best, bestScore best) entry = Inr (best, bestScore best)"
      using i e by (auto simp: keywordStep_def Let_def calculateSimilarity_jaccard)
    with False e Cons.IH[OF rest, of best] show ?thesis by auto
  qed
qed

lemma scan_spec_pass2:
  "foldl (scanStep q) (best, bestScore best) entries =
     (spec_pass2 q best entries, bestScore (spec_pass2 q best entries))"
proof (induction entries arbitrary: best)
  case Nil
  show ?case by simp
next
  case (Cons entry entries)
  let ?sim = "spec_similarity q (question entry)"
  let ?new = "Some \<lparr>matchAnswer = answer entry, matchedQuestion = question entry, confidence = ?sim\<rparr>"
  show ?case
  proof (cases "?sim > bestScore best")
    case True
    then have "scanStep q (best, bestScore best) entry = (?new, bestScore ?new)"
      by (simp add: scanStep_def Let_def calculateSimilarity_jaccard bestScore_def)
    with True Cons.IH[of ?new] show ?thesis by simp
  next
    case False
    then have "scanStep q (best, bestScore best) entry = (best, bestScore best)"
      by (simp add: scanStep_def Let_def calculateSimilarity_jaccard)
    with False Cons.IH[of best] show ?thesis by simp
  qed
qed

lemma keywordsTable_indices: "5 \<le> length catalog \<Longrightarrow> \<forall>(keyword, i)\<in>set keywordsTable. i < length catalog"
  by (auto simp: keywordsTable_def)

section \<open>C4: findBestMatch runs the two passes of the specification\<close>

text \<open>
  Claim C4. On a catalog that has the five entries the keyword table points to,
  \<open>findBestMatch\<close> returns what the specification describes: the running best starts
  with no match and score 0; pass 1 goes through the keyword table and, for a keyword that
  is a substring of the lowercased query, takes the mapped question when its Jaccard
  similarity is strictly greater than the best score, recording \<open>max similarity 0.5\<close>;
  pass 2 goes through the catalog and takes an entry whose similarity is strictly greater
  than the best score, recording the similarity itself; the best is returned when its
  confidence is at least 0.3, and no match otherwise. The similarity the code computes
  is the Jaccard index of the two normalized token sets.
\<close>

theorem findBestMatch_two_passes:
  assumes "5 \<le> length catalog"
  shows "findBestMatch catalog query = Inr (spec_findBestMatch catalog query)
         \<and> calculateSimilarity query other = spec_similarity query other"
proof -
  let ?b1 = "spec_pass1 catalog query None keywordsTable"
  let ?b2 = "spec_pass2 query ?b1 catalog"
  have z: "(0::real) = bestScore None" by (simp add: bestScore_def)
  have p1: "keywordLoop catalog query (toLowerCase query) (None, 0) keywordsTable = Inr (?b1, bestScore ?b1)"
    unfolding z using keywordLoop_spec_pass1[OF keywordsTable_indices[OF assms] ] .
  have p2: "foldl (scanStep query) (?b1, bestScore ?b1) catalog = (?b2, bestScore ?b2)"
    by (rule scan_spec_pass2)
  have fb: "findBestMatch catalog query =
      (if bestScore ?b2 \<ge> SIMILARITY_THRESHOLD then Inr ?b2 else Inr None)"
    unfolding findBestMatch_def Let_def p1 by (simp add: p2)
  have "findBestMatch catalog query = Inr (spec_findBestMatch catalog query)"
  proof (cases ?b2)
    case None
    then show ?thesis
      unfolding fb spec_findBestMatch_def by (simp add: bestScore_def SIMILARITY_THRESHOLD_def)
  next
    case (Some m)
    then show ?thesis
      unfolding fb spec_findBestMatch_def by (simp add: bestScore_def SIMILARITY_THRESHOLD_def)
  qed
  then show ?thesis by (simp add: calculateSimilarity_jaccard)
qed

theorem findBestMatch_two_passes_witness:
  "5 \<le> length exampleCatalog
   \<and> findBestMatch exampleCatalog ''What is EVA?'' = Inr (spec_findBestMatch exampleCatalog ''What is EVA?'')
   \<and> spec_findBestMatch exampleCatalog ''What is EVA?'' =
       Some \<lparr>matchAnswer = ''EVA automates the process of verifying a patient's eligibility.'',
             matchedQuestion = ''What does the eligibility verification agent (EVA) do?'',
             confidence = 1 / 2\<rparr>"
proof -
  have h: "5 \<le> length exampleCatalog" by (simp add: exampleCatalog_def)
  have v: "findBestMatch exampleCatalog ''What is EVA?'' =
       Inr (Some \<lparr>matchAnswer = ''EVA automates the process of verifying a patient's eligibility.'',
             matchedQuestion = ''What does the eligibility verification agent (EVA) do?'',
             confidence = 1 / 2\<rparr>)"
    by code_simp
  from h v findBestMatch_two_passes[OF h, of "''What is EVA?''" "''''"] show ?thesis by simp
qed

section \<open>C10: a match comes from one catalog entry\<close>

text \<open>
  Claim C10. When \<open>findBestMatch\<close> returns a match, one entry of the catalog has the
  match's question and the match's answer, and the confidence lies between 0.3 and 1.
\<close>

theorem findBestMatch_result:
  assumes "findBestMatch catalog query = Inr (Some m)"
  shows "(\<exists>e\<in>set catalog. matchedQuestion m = question e \<and> matchAnswer m = answer e)
         \<and> 0.3 \<le> confidence m \<and> confidence m \<le> 1"
  using findBestMatch_fromCatalog[OF assms]
  by (simp add: fromCatalog_def SIMILARITY_THRESHOLD_def)

lemma exampleMatch_EVA:
  "findBestMatch exampleCatalog ''What does the eligibility verification agent EVA do?'' =
     Inr (Some \<lparr>matchAnswer = ''EVA automates the process of verifying a patient's eligibility.'',
                matchedQuestion = ''What does the eligibility verification agent (EVA) do?'',
                confidence = 1\<rparr>)"
  by code_simp

theorem findBestMatch_result_witness:
  "findBestMatch exampleCatalog ''What does the eligibility verification agent EVA do?'' =
     Inr (Some \<lparr>matchAnswer = ''EVA automates the process of verifying a patient's eligibility.'',
                matchedQuestion = ''What does the eligibility verification agent (EVA) do?'',
                confidence = 1\<rparr>)
   \<and> (\<exists>e\<in>set exampleCatalog.
         ''What does the eligibility verification agent (EVA) do?'' = question e
         \<and> ''EVA automates the process of verifying a patient's eligibility.'' = answer e)
   \<and> (0.3::real) \<le> 1 \<and> (1 :: real) \<le> 1"
  using exampleMatch_EVA findBestMatch_result[OF exampleMatch_EVA] by simp

section \<open>The sums of cosineSimilarity\<close>








section \<open>C7: cosineSimilarity\<close>





section \<open>The results of searchDocuments\<close>


lemma score_extend: "score (document.extend d \<lparr>score = s\<rparr>) = s"
  by (cases d) (simp add: document.extend_def)












section \<open>C2: searchDocuments\<close>





section \<open>C3: a confident predefined match ends the resolution\<close>

text \<open>
  Claim C3. When \<open>findBestMatch\<close> returns a match of confidence strictly greater than
  0.6, \<open>getAgentResponse\<close> returns the match's answer, the source \<open>predefined\<close>, the
  match's confidence and its question. No request is made to the embedding or the
  completion collaborator (the state of the world and the recorded calls are unchanged),
  and the result is the same for every store, client and history.
\<close>

theorem getAgentResponse_predefined:
  assumes "findBestMatch questions userQuery = Inr (Some m)" and "confidence m > 0.6"
  shows "getAgentResponse questions store client userQuery conversationHistory s =
           (Inr \<lparr>respAnswer = matchAnswer m, respSource = Predefined,
                 respConfidence = Some (confidence m),
                 respMatchedQuestion = Some (matchedQuestion m), ragSources = None\<rparr>, s)
         \<and> calls (snd (getAgentResponse questions store client userQuery conversationHistory s)) = calls s
         \<and> getAgentResponse questions store client userQuery conversationHistory s =
             getAgentResponse questions store' client' userQuery conversationHistory' s"
  using assms by (simp add: getAgentResponse_def)

theorem getAgentResponse_predefined_witness:
  "findBestMatch exampleCatalog ''What does the eligibility verification agent EVA do?'' =
     Inr (Some \<lparr>matchAnswer = ''EVA automates the process of verifying a patient's eligibility.'',
                matchedQuestion = ''What does the eligibility verification agent (EVA) do?'',
                confidence = 1\<rparr>)
   \<and> (1::real) > 0.6
   \<and> getAgentResponse exampleCatalog exampleStore scriptedClient
        ''What does the eligibility verification agent EVA do?'' []
        \<lparr>world = \<lparr>embedScript = [Inr [ [1, 0] ] ], chatScript = [Inr [''unused''] ]\<rparr>, calls = []\<rparr> =
      (Inr \<lparr>respAnswer = ''EVA automates the process of verifying a patient's eligibility.'',
            respSource = Predefined, respConfidence = Some 1,
            respMatchedQuestion = Some ''What does the eligibility verification agent (EVA) do?'',
            ragSources = None\<rparr>,
       \<lparr>world = \<lparr>embedScript = [Inr [ [1, 0] ] ], chatScript = [Inr [''unused''] ]\<rparr>, calls = []\<rparr>)"
proof -
  let ?m = "\<lparr>matchAnswer = ''EVA automates the process of verifying a patient's eligibility.'',
                matchedQuestion = ''What does the eligibility verification agent (EVA) do?'',
                confidence = 1\<rparr>"
  have c: "confidence ?m > 0.6" by simp
  from getAgentResponse_predefined[OF exampleMatch_EVA c, of exampleStore scriptedClient "[]"
      "\<lparr>world = \<lparr>embedScript = [Inr [ [1, 0] ] ], chatScript = [Inr [''unused''] ]\<rparr>, calls = []\<rparr>"]
    exampleMatch_EVA
  show ?thesis by simp
qed

section \<open>C8: an error in the second tier falls through to the third\<close>

lemma ragTier_raises:
  assumes "getRelevantContext store client userQuery s = (Inl e, s')
           \<or> (\<exists>ctx s1. getRelevantContext store client userQuery s = (Inr ctx, s1)
                \<and> getOpenAIResponseWithRAG client userQuery conversationHistory (Some ctx) s1 = (Inl e, s'))"
  shows "ragTier store client userQuery conversationHistory s = (Inl e, s')"
  using assms by (auto simp: ragTier_def)

lemma afterPredefined_raises:
  assumes "isInitialized store" "ragTier store client userQuery conversationHistory s = (Inl e, s')"
  shows "afterPredefined store client userQuery conversationHistory s =
           openaiTier client userQuery conversationHistory s'"
  using assms by (simp add: afterPredefined_def)

text \<open>
  Claim C8. When no predefined match of confidence above 0.6 exists, the store is
  initialized, and the retrieval or the completion of the second tier raises,
  \<open>getAgentResponse\<close> does not raise that error: it goes on with the third tier from the
  state the failed tier left. It returns the third tier's answer with the source
  \<open>openai\<close> (the specification's fallback), no confidence and no matched question; it
  raises only when the completion of the third tier raises, and then that error.
\<close>

theorem getAgentResponse_tier2_failure:
  assumes "findBestMatch questions userQuery = Inr predefinedMatch"
    and "\<forall>m. predefinedMatch = Some m \<longrightarrow> \<not> confidence m > 0.6"
    and "isInitialized store"
    and "getRelevantContext store client userQuery s = (Inl e, s')
           \<or> (\<exists>ctx s1. getRelevantContext store client userQuery s = (Inr ctx, s1)
                \<and> getOpenAIResponseWithRAG client userQuery conversationHistory (Some ctx) s1 = (Inl e, s'))"
  shows "getAgentResponse questions store client userQuery conversationHistory s =
           openaiTier client userQuery conversationHistory s'
         \<and> (\<forall>a s''. getOpenAIResponse client userQuery conversationHistory s' = (Inr a, s'') \<longrightarrow>
               getAgentResponse questions store client userQuery conversationHistory s =
                 (Inr \<lparr>respAnswer = a, respSource = Openai, respConfidence = None,
                       respMatchedQuestion = None, ragSources = None\<rparr>, s''))
         \<and> (\<forall>e3 s''. getOpenAIResponse client userQuery conversationHistory s' = (Inl e3, s'') \<longrightarrow>
               getAgentResponse questions store client userQuery conversationHistory s = (Inl e3, s''))"
proof -
  have t: "afterPredefined store client userQuery conversationHistory s =
             openaiTier client userQuery conversationHistory s'"
    using afterPredefined_raises[OF assms(3) ragTier_raises[OF assms(4)] ] .
  have g: "getAgentResponse questions store client userQuery conversationHistory s =
             afterPredefined store client userQuery conversationHistory s"
    using assms(1,2) by (cases predefinedMatch) (simp_all add: getAgentResponse_def)
  show ?thesis unfolding g t by (simp add: openaiTier_def)
qed

lemma exampleMatch_weather:
  "findBestMatch exampleCatalog ''What is the weather today?'' = Inr None"
  by code_simp

lemma exampleContext:
  "\<exists>ctx. getRelevantContext exampleStore scriptedClient ''What is the weather today?''
     \<lparr>world = \<lparr>embedScript = [Inr [ [1, 0] ] ],
                chatScript = [Inl (Error ''rate limit''), Inr [''Mocked OpenAI response''] ]\<rparr>, calls = []\<rparr> =
   (Inr ctx,
    \<lparr>world = \<lparr>embedScript = [],
                chatScript = [Inl (Error ''rate limit''), Inr [''Mocked OpenAI response''] ]\<rparr>,
     calls = [EmbeddingsCreate ''What is the weather today?'']\<rparr>)"
  by (simp add: getRelevantContext_def searchDocuments_def exampleStore_def generateEmbedding_def
      scriptedClient_def scriptedEmbeddings_def cosineSimilarity_def cosineStep_def sortByScore_def
      sliceTo_def score_extend)

lemma exampleCompletionFails:
  "fst (getOpenAIResponseWithRAG scriptedClient q h ctx
     \<lparr>world = \<lparr>embedScript = [],
                chatScript = [Inl (Error ''rate limit''), Inr [''Mocked OpenAI response''] ]\<rparr>,
      calls = cs\<rparr>) = Inl (Error ''rate limit'')
   \<and> world (snd (getOpenAIResponseWithRAG scriptedClient q h ctx
     \<lparr>world = \<lparr>embedScript = [],
                chatScript = [Inl (Error ''rate limit''), Inr [''Mocked OpenAI response''] ]\<rparr>,
      calls = cs\<rparr>)) = \<lparr>embedScript = [], chatScript = [Inr [''Mocked OpenAI response''] ]\<rparr>"
  by (simp add: getOpenAIResponseWithRAG_def scriptedClient_def scriptedChat_def Let_def)

lemma exampleCompletionSucceeds:
  "world s = \<lparr>embedScript = [], chatScript = [Inr [''Mocked OpenAI response''] ]\<rparr> \<Longrightarrow>
   fst (getOpenAIResponse scriptedClient q h s) = Inr ''Mocked OpenAI response''"
  by (simp add: getOpenAIResponse_def getOpenAIResponseWithRAG_def scriptedClient_def
      scriptedChat_def Let_def)

theorem getAgentResponse_tier2_failure_witness:
  "findBestMatch exampleCatalog ''What is the weather today?'' = Inr None
   \<and> isInitialized exampleStore
   \<and> getRelevantContext exampleStore scriptedClient ''What is the weather today?''
        \<lparr>world = \<lparr>embedScript = [Inl (Error ''embedding failed'')],
                   chatScript = [Inr [''Mocked OpenAI response''] ]\<rparr>, calls = []\<rparr> =
      (Inl (Error ''embedding failed''),
       \<lparr>world = \<lparr>embedScript = [], chatScript = [Inr [''Mocked OpenAI response''] ]\<rparr>,
        calls = [EmbeddingsCreate ''What is the weather today?'']\<rparr>)
   \<and> fst (getAgentResponse exampleCatalog exampleStore scriptedClient ''What is the weather today?'' []
        \<lparr>world = \<lparr>embedScript = [Inl (Error ''embedding failed'')],
                   chatScript = [Inr [''Mocked OpenAI response''] ]\<rparr>, calls = []\<rparr>) =
      Inr \<lparr>respAnswer = ''Mocked OpenAI response'', respSource = Openai, respConfidence = None,
            respMatchedQuestion = None, ragSources = None\<rparr>
   \<and> fst (ragTier exampleStore scriptedClient ''What is the weather today?'' []
        \<lparr>world = \<lparr>embedScript = [Inr [ [1, 0] ] ],
                   chatScript = [Inl (Error ''rate limit''), Inr [''Mocked OpenAI response''] ]\<rparr>,
         calls = []\<rparr>) = Inl (Error ''rate limit'')
   \<and> fst (getAgentResponse exampleCatalog exampleStore scriptedClient ''What is the weather today?'' []
        \<lparr>world = \<lparr>embedScript = [Inr [ [1, 0] ] ],
                   chatScript = [Inl (Error ''rate limit''), Inr [''Mocked OpenAI response''] ]\<rparr>,
         calls = []\<rparr>) =
      Inr \<lparr>respAnswer = ''Mocked OpenAI response'', respSource = Openai, respConfidence = None,
            respMatchedQuestion = None, ragSources = None\<rparr>"
proof -
  let ?q = "''What is the weather today?''"
  let ?fallback = "\<lparr>respAnswer = ''Mocked OpenAI response'', respSource = Openai, respConfidence = None,
            respMatchedQuestion = None, ragSources = None\<rparr>"
  have h2: "\<forall>m. (None :: match option) = Some m \<longrightarrow> \<not> confidence m > 0.6" by simp
  have h3: "isInitialized exampleStore" by (simp add: isInitialized_def exampleStore_def)
  \<comment> \<open>the embedding of the query fails\<close>
  let ?s = "\<lparr>world = \<lparr>embedScript = [Inl (Error ''embedding failed'')],
                   chatScript = [Inr [''Mocked OpenAI response''] ]\<rparr>, calls = []\<rparr>"
  let ?s' = "\<lparr>world = \<lparr>embedScript = [], chatScript = [Inr [''Mocked OpenAI response''] ]\<rparr>,
        calls = [EmbeddingsCreate ?q]\<rparr>"
  have r: "getRelevantContext exampleStore scriptedClient ?q ?s = (Inl (Error ''embedding failed''), ?s')"
    by (simp add: getRelevantContext_def searchDocuments_def exampleStore_def generateEmbedding_def
        scriptedClient_def scriptedEmbeddings_def)
  then have h4: "getRelevantContext exampleStore scriptedClient ?q ?s = (Inl (Error ''embedding failed''), ?s')
      \<or> (\<exists>ctx s1. getRelevantContext exampleStore scriptedClient ?q ?s = (Inr ctx, s1)
            \<and> getOpenAIResponseWithRAG scriptedClient ?q [] (Some ctx) s1 = (Inl (Error ''embedding failed''), ?s'))"
    by (rule disjI1)
  have "fst (getOpenAIResponse scriptedClient ?q [] ?s') = Inr ''Mocked OpenAI response''"
    by (rule exampleCompletionSucceeds) simp
  then have t3: "getOpenAIResponse scriptedClient ?q [] ?s' =
      (Inr ''Mocked OpenAI response'', snd (getOpenAIResponse scriptedClient ?q [] ?s'))"
    by (metis prod.collapse)
  from getAgentResponse_tier2_failure[OF exampleMatch_weather h2 h3 h4] t3
  have "getAgentResponse exampleCatalog exampleStore scriptedClient ?q [] ?s =
      (Inr ?fallback, snd (getOpenAIResponse scriptedClient ?q [] ?s'))" by blast
  then have A: "fst (getAgentResponse exampleCatalog exampleStore scriptedClient ?q [] ?s) = Inr ?fallback"
    by simp
  \<comment> \<open>the completion with the retrieved context fails\<close>
  let ?t = "\<lparr>world = \<lparr>embedScript = [Inr [ [1, 0] ] ],
                   chatScript = [Inl (Error ''rate limit''), Inr [''Mocked OpenAI response''] ]\<rparr>,
         calls = []\<rparr>"
  let ?t1 = "\<lparr>world = \<lparr>embedScript = [],
                chatScript = [Inl (Error ''rate limit''), Inr [''Mocked OpenAI response''] ]\<rparr>,
     calls = [EmbeddingsCreate ?q]\<rparr>"
  from exampleContext obtain ctx where
    c: "getRelevantContext exampleStore scriptedClient ?q ?t = (Inr ctx, ?t1)" by blast
  let ?t2 = "snd (getOpenAIResponseWithRAG scriptedClient ?q [] (Some ctx) ?t1)"
  have f: "getOpenAIResponseWithRAG scriptedClient ?q [] (Some ctx) ?t1 = (Inl (Error ''rate limit''), ?t2)"
    using exampleCompletionFails[of ?q "[]" "Some ctx" "[EmbeddingsCreate ?q]"] by (metis prod.collapse)
  have w: "world ?t2 = \<lparr>embedScript = [], chatScript = [Inr [''Mocked OpenAI response''] ]\<rparr>"
    using exampleCompletionFails[of ?q "[]" "Some ctx" "[EmbeddingsCreate ?q]"] by blast
  from c f have k4: "getRelevantContext exampleStore scriptedClient ?q ?t = (Inl (Error ''rate limit''), ?t2)
      \<or> (\<exists>ctx s1. getRelevantContext exampleStore scriptedClient ?q ?t = (Inr ctx, s1)
            \<and> getOpenAIResponseWithRAG scriptedClient ?q [] (Some ctx) s1 = (Inl (Error ''rate limit''), ?t2))"
    by blast
  have B1: "fst (ragTier exampleStore scriptedClient ?q [] ?t) = Inl (Error ''rate limit'')"
    using ragTier_raises[OF k4] by simp
  have "fst (getOpenAIResponse scriptedClient ?q [] ?t2) = Inr ''Mocked OpenAI response''"
    using w by (rule exampleCompletionSucceeds)
  then have u3: "getOpenAIResponse scriptedClient ?q [] ?t2 =
      (Inr ''Mocked OpenAI response'', snd (getOpenAIResponse scriptedClient ?q [] ?t2))"
    by (metis prod.collapse)
  from getAgentResponse_tier2_failure[OF exampleMatch_weather h2 h3 k4] u3
  have "getAgentResponse exampleCatalog exampleStore scriptedClient ?q [] ?t =
      (Inr ?fallback, snd (getOpenAIResponse scriptedClient ?q [] ?t2))" by blast
  then have B2: "fst (getAgentResponse exampleCatalog exampleStore scriptedClient ?q [] ?t) = Inr ?fallback"
    by simp
  from exampleMatch_weather h3 r A B1 B2 show ?thesis by blast
qed

section \<open>C5: text under a noise element\<close>

text \<open>
  Claim C5 says that no text inside a noise element reaches the output. The callbacks
  keep one flag \<open>skipContent\<close>, set when a noise element opens and cleared when any
  noise element closes, so the end of a noise element nested in another one switches the
  skipping off while the outer element is still open. For the markup
  \<open><nav><header>Logo</header><a href="/x">Hidden menu link</a></nav>\<close> the parser
  calls the callbacks in the order below, and the text of the link, which lies inside
  \<open>nav\<close>, is the output; without the nested \<open>header\<close> the same link is
  discarded.
\<close>

theorem extractText_nested_noise:
  "extractTextFromEvents
     [OpenTag ''nav'', OpenTag ''header'', Text ''Logo'', CloseTag ''header'',
      OpenTag ''a'', Text ''Hidden menu link'', CloseTag ''a'', CloseTag ''nav'']
   = ''Hidden menu link''
   \<and> extractTextFromEvents
     [OpenTag ''nav'', OpenTag ''a'', Text ''Hidden menu link'', CloseTag ''a'', CloseTag ''nav'']
   = []"
  by code_simp

section \<open>C9: one initialization at a time\<close>







end
